theory Spec2Isabelle
  imports Main
begin

section \<open>Levels and the level table\<close>

text \<open>
  \<^verbatim>\<open>type Level int\<close>. The model takes Go's \<open>int\<close> on a 64-bit target: a level is an
  integer, and the one arithmetic operation of the package on levels, the unary minus of
  \<open>MessageEx\<close>, wraps at \<open>2^63\<close>.
\<close>

type_synonym Level = int

definition EMERG :: Level where "EMERG = 0"
definition ALERT :: Level where "ALERT = 1"
definition CRIT :: Level where "CRIT = 2"
definition ERR :: Level where "ERR = 3"
definition WARNING :: Level where "WARNING = 4"
definition NOTICE :: Level where "NOTICE = 5"
definition INFO :: Level where "INFO = 6"
definition TIME :: Level where "TIME = 7"
definition DEBUG :: Level where "DEBUG = 8"
definition TRACE1 :: Level where "TRACE1 = 9"
definition TRACE2 :: Level where "TRACE2 = 10"
definition TRACE3 :: Level where "TRACE3 = 11"
definition TRACE4 :: Level where "TRACE4 = 12"
definition UNKNOWN :: Level where "UNKNOWN = 13"

definition wrap64 :: "int \<Rightarrow> int" where
  "wrap64 i = (i + 2 ^ 63) mod 2 ^ 64 - 2 ^ 63"

record logLevelDef =
  code :: Level
  name :: string
  shortName :: string

definition levels :: "logLevelDef list" where
  "levels =
    [\<lparr>code = EMERG, name = ''EMERG'', shortName = ''EM''\<rparr>,
     \<lparr>code = ALERT, name = ''ALERT'', shortName = ''AL''\<rparr>,
     \<lparr>code = CRIT, name = ''CRIT'', shortName = ''CR''\<rparr>,
     \<lparr>code = ERR, name = ''ERR'', shortName = ''ER''\<rparr>,
     \<lparr>code = WARNING, name = ''WARNING'', shortName = ''WA''\<rparr>,
     \<lparr>code = NOTICE, name = ''NOTICE'', shortName = ''NO''\<rparr>,
     \<lparr>code = INFO, name = ''INFO'', shortName = ''IN''\<rparr>,
     \<lparr>code = TIME, name = ''TIME'', shortName = ''TM''\<rparr>,
     \<lparr>code = DEBUG, name = ''DEBUG'', shortName = ''DE''\<rparr>,
     \<lparr>code = TRACE1, name = ''TRACE1'', shortName = ''T1''\<rparr>,
     \<lparr>code = TRACE2, name = ''TRACE2'', shortName = ''T2''\<rparr>,
     \<lparr>code = TRACE3, name = ''TRACE3'', shortName = ''T3''\<rparr>,
     \<lparr>code = TRACE4, name = ''TRACE4'', shortName = ''T4''\<rparr>,
     \<lparr>code = UNKNOWN, name = ''UNKNOWN'', shortName = ''??''\<rparr>]"

text \<open>
  What a call can do instead of returning: block for ever on the package mutex (which is
  not reentrant), index the level table out of range, or dereference a nil facility.
\<close>

datatype fault = Deadlock | IndexOutOfRange | NilDereference

text \<open>\<open>levels[i]\<close>: Go panics when the index is outside the table.\<close>

definition levels_at :: "Level \<Rightarrow> fault + logLevelDef" where
  "levels_at i =
     (if 0 \<le> i \<and> i < int (length levels) then Inr (levels ! nat i) else Inl IndexOutOfRange)"

text \<open>
  \<open>Str2Level\<close>: the loop over the table, leaving at the first entry whose long or short
  name is the argument; \<open>(UNKNOWN, false)\<close> when there is none.
\<close>

fun Str2Level_loop :: "logLevelDef list \<Rightarrow> string \<Rightarrow> Level \<times> bool" where
  "Str2Level_loop [] levelName = (UNKNOWN, False)"
| "Str2Level_loop (d # ds) levelName =
     (if levelName = name d \<or> levelName = shortName d then (code d, True)
      else Str2Level_loop ds levelName)"

definition Str2Level :: "string \<Rightarrow> Level \<times> bool" where
  "Str2Level levelName = Str2Level_loop levels levelName"

text \<open>\<open>GetLogLevelName\<close> returns \<open>(short, long)\<close> of \<open>levels[level]\<close>.\<close>

definition GetLogLevelName :: "Level \<Rightarrow> fault + (string \<times> string)" where
  "GetLogLevelName lv =
     (case levels_at lv of Inl e \<Rightarrow> Inl e | Inr d \<Rightarrow> Inr (shortName d, name d))"


section \<open>Decimal rendering of integers\<close>

text \<open>The \<open>%d\<close> verb of \<open>fmt.Sprintf\<close> on an integer.\<close>

fun show_nat :: "nat \<Rightarrow> string" where
  "show_nat n =
     (if n < 10 then [''0123456789'' ! n]
      else show_nat (n div 10) @ [''0123456789'' ! (n mod 10)])"

declare show_nat.simps [simp del]

definition show_int :: "int \<Rightarrow> string" where
  "show_int i = (if i < 0 then ''-'' @ show_nat (nat (- i)) else show_nat (nat i))"

section \<open>Package state\<close>

text \<open>
  A \<open>*Facility\<close> is modelled by the key under which the facility is registered: the only
  place that builds a \<open>Facility\<close> is \<open>NewFacility\<close>, which stores it in \<open>facilities\<close> under
  its own name, and nothing ever removes an entry. \<open>None\<close> is the nil pointer.
\<close>

record Facility =
  name :: string
  level :: Level

text \<open>
  The package variables. \<open>mutex\<close> is true while the mutex is held. \<open>consoleWriter\<close>,
  \<open>logfile\<close> (the variable \<open>file\<close>) and \<open>fileWriter\<close> say whether the variable is non-nil;
  \<open>consoleOut\<close> and \<open>fileOut\<close> collect what has been handed to the console sink and to
  the log file (directly or through the buffered writer). \<open>fileName\<close>, \<open>fileDirectory\<close>,
  \<open>dumpFileName\<close> and the flush period only reach the file system and are left out. An alert subscriber is an opaque callback: \<open>alertSubscribers\<close> holds the
  registered ids and \<open>alertLog\<close> records every invocation as
  (id, facility name, old level, new level).
\<close>

record state =
  mutex :: bool
  facilities :: "string \<rightharpoonup> Facility"
  stdFacility :: "string option"
  consoleWriter :: bool
  consoleOut :: "string list"
  enabled :: bool
  active :: bool
  firstTime :: bool
  beforeFileBuf :: "string list"
  lastBuf :: "string list"
  logFuncName :: int
  lastWriteDate :: string
  fileNamePattern :: string
  logfile :: bool
  fileWriterBufSize :: int
  fileWriter :: bool
  fileOut :: "string list"
  maxLen :: int
  pid :: int
  alertSubscribers :: "int set"
  alertLog :: "(int \<times> string \<times> Level \<times> Level) list"

definition logFuncNameNone :: int where "logFuncNameNone = 0"
definition logFuncNameShort :: int where "logFuncNameShort = 1"
definition logFuncNameFull :: int where "logFuncNameFull = 2"

definition beforeFileBufSize :: nat where "beforeFileBufSize = 500"
definition lastBufSize :: nat where "lastBufSize = 10"

definition StdFacilityName :: string where "StdFacilityName = []"

text \<open>A value passed for \<open>params ...interface{}\<close>.\<close>

datatype any = AString string | AInt int | AOther nat

text \<open>
  What one call takes from outside the package: the clock, formatted three ways
  (\<open>misc.DateFormatRev\<close>, \<open>misc.TimeFormatWithMS\<close>, \<open>misc.DateTimeFormatRevWithMS\<close>);
  \<open>misc.GetFuncName\<close> on the present call stack; \<open>fmt.Sprintf\<close> on a caller-supplied
  format; \<open>misc.EOS\<close>; whether \<open>os.OpenFile\<close> of the day's file succeeds; the process
  metadata of the launch banner; and the order in which the runtime enumerates the
  \<open>alertSubscribers\<close> map.
\<close>

record ext =
  now_date :: string
  now_time :: string
  now_stamp :: string
  getFuncName :: "int \<Rightarrow> bool \<Rightarrow> string"
  sprintf :: "string \<Rightarrow> any list \<Rightarrow> string"
  EOS :: string
  open_ok :: bool
  appName :: string
  appVersion :: string
  appTags :: string
  buildTime :: string
  appStartTime :: string
  cmdLine :: string
  alert_order :: "int list"

section \<open>The mutex\<close>

text \<open>\<open>sync.Mutex\<close> is not reentrant: \<open>Lock\<close> on a held mutex never returns.\<close>

definition lock :: "state \<Rightarrow> fault + state" where
  "lock s = (if mutex s then Inl Deadlock else Inr (s\<lparr>mutex := True\<rparr>))"

definition unlock :: "state \<Rightarrow> state" where
  "unlock s = s\<lparr>mutex := False\<rparr>"

section \<open>Writing\<close>

definition writeToConsole :: "string \<Rightarrow> state \<Rightarrow> state" where
  "writeToConsole msg s =
     (if consoleWriter s then s\<lparr>consoleOut := consoleOut s @ [msg]\<rparr> else s)"

text \<open>
  \<open>write\<close> (here \<open>write_log\<close>): to the buffered writer when there is one, else to the
  file; nothing when no file is open.
\<close>

definition write_log :: "string \<Rightarrow> state \<Rightarrow> state" where
  "write_log str s =
     (if logfile s then
        (if fileWriter s then s\<lparr>fileOut := fileOut s @ [str]\<rparr>
         else s\<lparr>fileOut := fileOut s @ [str]\<rparr>)
      else s)"

text \<open>\<open>text[:maxLen]\<close> when \<open>maxLen > 0 && maxLen < len(text)\<close>.\<close>

definition truncate_to :: "int \<Rightarrow> string \<Rightarrow> string" where
  "truncate_to n txt = (if n > 0 \<and> n < int (length txt) then take (nat n) txt else txt)"

text \<open>The launch banner of \<open>openLogFile\<close>, before truncation.\<close>

definition banner :: "ext \<Rightarrow> state \<Rightarrow> string" where
  "banner x s =
     (let ts = (if buildTime x \<noteq> [] then '' ['' @ buildTime x @ ''Z]'' else []);
          tags = (if appTags x \<noteq> [] then '' '' @ appTags x else [])
      in ''['' @ show_int (pid s) @ ''] '' @ shortName (levels ! nat INFO) @ '' '' @ now_stamp x
         @ '' *** '' @ appName x @ '' '' @ appVersion x @ tags @ ts
         @ '' was launched at '' @ appStartTime x @ ''Z with command line ''
         @ [CHR 0x22] @ cmdLine x @ [CHR 0x22])"

text \<open>
  \<open>openLogFile\<close>: close what is open, open the day's file (which may fail), write the
  banner and the pre-open buffer into it, and show the banner on the console the first
  time. Creating the directory, redirecting stderr and removing the dump file act on the
  file system only.
\<close>

definition openLogFile :: "string \<Rightarrow> ext \<Rightarrow> state \<Rightarrow> state" where
  "openLogFile dt x s =
     (let s1 = (if logfile s then s\<lparr>fileWriter := False, logfile := False\<rparr> else s);
          s2 = s1\<lparr>logfile := open_ok x\<rparr>;
          msg = truncate_to (maxLen s2) (banner x s2) @ EOS x;
          s3 = (if logfile s2 then
                  (let s4 = (if fileWriterBufSize s2 > 0 then s2\<lparr>fileWriter := True\<rparr> else s2);
                       s5 = write_log msg s4
                   in if length (beforeFileBuf s5) > 0
                      then (fold write_log (beforeFileBuf s5) s5)\<lparr>beforeFileBuf := []\<rparr>
                      else s5)
                else s2)
      in if firstTime s3 then writeToConsole msg (s3\<lparr>firstTime := False\<rparr>) else s3)"

section \<open>The logger\<close>

text \<open>The formatted line of \<open>logger\<close>, end-of-line marker included.\<close>

definition logger_text ::
  "int \<Rightarrow> string \<Rightarrow> Level \<Rightarrow> (string \<Rightarrow> string) option \<Rightarrow> string \<Rightarrow> any list \<Rightarrow> ext \<Rightarrow> state \<Rightarrow> string" where
  "logger_text stackShift facility lv replace message params x s =
     (let levelName = (if lv \<ge> EMERG \<and> lv < UNKNOWN then shortName (levels ! nat lv)
                       else ''?'' @ show_int lv @ ''?'');
          funcName = (if lv = EMERG \<or> logFuncName s = logFuncNameFull
                        then '' '' @ getFuncName x (stackShift + 1) False @ '':''
                      else if logFuncName s = logFuncNameShort
                        then '' '' @ getFuncName x (stackShift + 1) True @ '':''
                      else []);
          fac = (if facility \<noteq> [] then '' <'' @ facility @ ''>'' else facility);
          format = ''['' @ show_int (pid s) @ ''] '' @ levelName @ '' '' @ now_date x @ '' ''
                   @ now_time x @ fac @ funcName @ '' '' @ message;
          text1 = truncate_to (maxLen s) (sprintf x format params);
          text2 = (case replace of None \<Rightarrow> text1 | Some r \<Rightarrow> r text1)
      in text2 @ EOS x)"

text \<open>The \<open>if active\<close> block: pre-open buffer, rotating file, or nothing.\<close>

definition logger_persist :: "string \<Rightarrow> ext \<Rightarrow> state \<Rightarrow> state" where
  "logger_persist txt x s =
     (if active s then
        (if fileNamePattern s = [] then
           (let ln = length (beforeFileBuf s)
            in if ln > beforeFileBufSize then s
               else if ln < beforeFileBufSize then s\<lparr>beforeFileBuf := beforeFileBuf s @ [txt]\<rparr>
               else s\<lparr>beforeFileBuf := beforeFileBuf s @ [''...'']\<rparr>)
         else if fileNamePattern s \<noteq> ''-'' then
           (let s1 = (if \<not> logfile s \<or> lastWriteDate s \<noteq> now_date x
                      then openLogFile (now_date x) x s else s)
            in if logfile s1 then (write_log txt s1)\<lparr>lastWriteDate := now_date x\<rparr>
               else s1\<lparr>lastWriteDate := []\<rparr>)
         else s)
      else s)"

text \<open>The ring of recent lines: \<open>lastBuf[1:]\<close> when full, then the append.\<close>

definition logger_ring :: "string \<Rightarrow> state \<Rightarrow> state" where
  "logger_ring txt s =
     s\<lparr>lastBuf := (if length (lastBuf s) \<ge> lastBufSize then tl (lastBuf s) else lastBuf s) @ [txt]\<rparr>"

text \<open>What \<open>logger\<close> does between taking and releasing the mutex.\<close>

definition logger_body ::
  "int \<Rightarrow> string \<Rightarrow> Level \<Rightarrow> (string \<Rightarrow> string) option \<Rightarrow> string \<Rightarrow> any list \<Rightarrow> ext \<Rightarrow> state \<Rightarrow> state" where
  "logger_body stackShift facility lv replace message params x s =
     (let txt = logger_text stackShift facility lv replace message params x s
      in writeToConsole txt (logger_ring txt (logger_persist txt x s)))"

definition logger ::
  "bool \<Rightarrow> int \<Rightarrow> string \<Rightarrow> Level \<Rightarrow> (string \<Rightarrow> string) option \<Rightarrow> string \<Rightarrow> any list \<Rightarrow> ext \<Rightarrow> state
     \<Rightarrow> fault + state" where
  "logger withLock stackShift facility lv replace message params x s =
     (if \<not> enabled s then Inr s
      else if withLock then
        (case lock s of
           Inl e \<Rightarrow> Inl e
         | Inr s1 \<Rightarrow> Inr (unlock (logger_body stackShift facility lv replace message params x s1)))
      else Inr (logger_body stackShift facility lv replace message params x s))"

section \<open>Facilities\<close>

text \<open>
  \<open>NewFacility\<close>: under the mutex, the registered facility when there is one; else a new
  one at \<open>DEBUG\<close>, or at the standard facility's level when the name is not the standard
  name. The result is the facility pointer and the state.
\<close>

definition NewFacility :: "string \<Rightarrow> state \<Rightarrow> fault + (string \<times> state)" where
  "NewFacility nm s =
     (case lock s of
        Inl e \<Rightarrow> Inl e
      | Inr s1 \<Rightarrow>
          (case facilities s1 nm of
             Some f \<Rightarrow> Inr (nm, unlock s1)
           | None \<Rightarrow>
               (case (if nm \<noteq> StdFacilityName
                      then (case stdFacility s1 of
                              None \<Rightarrow> Inl NilDereference
                            | Some p \<Rightarrow> (case facilities s1 p of
                                          None \<Rightarrow> Inl NilDereference
                                        | Some sf \<Rightarrow> Inr (level sf)))
                      else Inr DEBUG) of
                  Inl e \<Rightarrow> Inl e
                | Inr lv \<Rightarrow>
                    Inr (nm, unlock (s1\<lparr>facilities :=
                                          (facilities s1)(nm \<mapsto> \<lparr>name = nm, level = lv\<rparr>)\<rparr>)))))"

text \<open>
  \<open>GetFacility\<close>: takes the mutex, returns the registered facility when there is one, and
  otherwise calls \<open>NewFacility\<close> while still holding the mutex (the deferred unlock runs
  after the call).
\<close>

definition GetFacility :: "string \<Rightarrow> state \<Rightarrow> fault + (string \<times> state)" where
  "GetFacility nm s =
     (case lock s of
        Inl e \<Rightarrow> Inl e
      | Inr s1 \<Rightarrow>
          (case facilities s1 nm of
             Some f \<Rightarrow> Inr (nm, unlock s1)
           | None \<Rightarrow>
               (case NewFacility nm s1 of
                  Inl e \<Rightarrow> Inl e
                | Inr (p, s2) \<Rightarrow> Inr (p, unlock s2))))"

text \<open>The package variables as declared, and \<open>init\<close> for a process id.\<close>

definition package_vars :: state where
  "package_vars =
     \<lparr>mutex = False, facilities = Map.empty, stdFacility = None, consoleWriter = False,
      consoleOut = [], enabled = True, active = True, firstTime = True, beforeFileBuf = [],
      lastBuf = [], logFuncName = logFuncNameNone, lastWriteDate = [], fileNamePattern = [],
      logfile = False, fileWriterBufSize = 0, fileWriter = False, fileOut = [], maxLen = 0,
      pid = 0, alertSubscribers = {}, alertLog = []\<rparr>"

definition init :: "int \<Rightarrow> fault + state" where
  "init p =
     (case NewFacility StdFacilityName (package_vars\<lparr>pid := p\<rparr>) of
        Inl e \<Rightarrow> Inl e
      | Inr (f, s) \<Rightarrow> Inr (s\<lparr>stdFacility := Some f, consoleWriter := True\<rparr>))"

text \<open>The \<open>switch funcNameMode\<close> of \<open>setLogLevel\<close>; a \<open>FuncNameMode\<close> is a string.\<close>

definition funcNameMode_code :: "string \<Rightarrow> int" where
  "funcNameMode_code m =
     (if m = ''short'' then logFuncNameShort
      else if m = ''full'' then logFuncNameFull
      else logFuncNameNone)"

text \<open>
  \<open>setLogLevel\<close> on the facility \<open>fp\<close>, the mutex being held by the caller. The result is
  \<open>(oldLevel, err, state)\<close>, \<open>err\<close> being the text of the error or \<open>None\<close> for nil.
\<close>

definition invalid_level_msg :: "string \<Rightarrow> string \<Rightarrow> string" where
  "invalid_level_msg levelName oldName =
     ''Invalid log level '' @ [CHR 0x22] @ levelName @ [CHR 0x22] @ '', left unchanged ''
       @ [CHR 0x22] @ oldName @ [CHR 0x22] @ '' ''"

definition level_is_msg :: string where
  "level_is_msg = ''Log level is '' @ [CHR 0x22] @ ''%s'' @ [CHR 0x22]"

definition setLogLevel ::
  "string \<Rightarrow> string \<Rightarrow> string \<Rightarrow> ext \<Rightarrow> state \<Rightarrow> fault + (Level \<times> string option \<times> state)" where
  "setLogLevel fp levelName funcNameMode x s =
     (let s1 = s\<lparr>logFuncName := funcNameMode_code funcNameMode\<rparr>
      in case facilities s1 fp of
           None \<Rightarrow> Inl NilDereference
         | Some f \<Rightarrow>
             (let oldLevel = level f;
                  (newLevel, ok) = Str2Level levelName
              in if \<not> ok then
                   (case levels_at oldLevel of
                      Inl e \<Rightarrow> Inl e
                    | Inr d \<Rightarrow>
                        (let msg = invalid_level_msg levelName (logLevelDef.name d)
                         in case logger False 0 (name f) WARNING None msg [] x s1 of
                              Inl e \<Rightarrow> Inl e
                            | Inr s2 \<Rightarrow> Inr (oldLevel, Some msg, s2)))
                 else if newLevel \<noteq> oldLevel then
                   (let s2 = s1\<lparr>alertLog := alertLog s1
                                   @ map (\<lambda>i. (i, name f, oldLevel, newLevel)) (alert_order x)\<rparr>;
                        s3 = s2\<lparr>facilities := (facilities s2)(fp \<mapsto> f\<lparr>level := newLevel\<rparr>)\<rparr>
                    in case levels_at newLevel of
                         Inl e \<Rightarrow> Inl e
                       | Inr d \<Rightarrow>
                           (case logger False 0 (name f) INFO None level_is_msg
                                   [AString (logLevelDef.name d)] x s3 of
                              Inl e \<Rightarrow> Inl e
                            | Inr s4 \<Rightarrow> Inr (oldLevel, None, s4)))
                 else Inr (oldLevel, None, s1)))"

text \<open>\<open>Facility.SetLogLevel\<close>: \<open>setLogLevel\<close> under the mutex.\<close>

definition SetLogLevel ::
  "string \<Rightarrow> string \<Rightarrow> string \<Rightarrow> ext \<Rightarrow> state \<Rightarrow> fault + (Level \<times> string option \<times> state)" where
  "SetLogLevel fp levelName funcNameMode x s =
     (case lock s of
        Inl e \<Rightarrow> Inl e
      | Inr s1 \<Rightarrow>
          (case setLogLevel fp levelName funcNameMode x s1 of
             Inl e \<Rightarrow> Inl e
           | Inr (oldLevel, err, s2) \<Rightarrow> Inr (oldLevel, err, unlock s2)))"

text \<open>
  \<open>SetLogLevels\<close>: the loop over \<open>facilities\<close>, in the order \<open>order\<close> in which the runtime
  enumerates the map, leaving at the first error. \<open>xs\<close> gives what the call for each
  facility takes from outside.
\<close>

fun SetLogLevels_loop ::
  "string list \<Rightarrow> string \<Rightarrow> (string \<rightharpoonup> string) \<Rightarrow> string \<Rightarrow> (string \<Rightarrow> ext) \<Rightarrow> state
     \<Rightarrow> fault + (string option \<times> state)" where
  "SetLogLevels_loop [] defaultLevelName overrides logFunc xs s = Inr (None, s)"
| "SetLogLevels_loop (fp # fps) defaultLevelName overrides logFunc xs s =
     (case facilities s fp of
        None \<Rightarrow> Inl NilDereference
      | Some f \<Rightarrow>
          (let lv = (case overrides (name f) of Some l \<Rightarrow> l | None \<Rightarrow> defaultLevelName)
           in case setLogLevel fp lv logFunc (xs fp) s of
                Inl e \<Rightarrow> Inl e
              | Inr (old, err, s1) \<Rightarrow>
                  (if err \<noteq> None then Inr (err, s1)
                   else SetLogLevels_loop fps defaultLevelName overrides logFunc xs s1)))"

definition SetLogLevels ::
  "string \<Rightarrow> (string \<rightharpoonup> string) \<Rightarrow> string \<Rightarrow> string list \<Rightarrow> (string \<Rightarrow> ext) \<Rightarrow> state
     \<Rightarrow> fault + (string option \<times> state)" where
  "SetLogLevels defaultLevelName overrides logFunc order xs s =
     (case lock s of
        Inl e \<Rightarrow> Inl e
      | Inr s1 \<Rightarrow>
          (case SetLogLevels_loop order defaultLevelName overrides logFunc xs s1 of
             Inl e \<Rightarrow> Inl e
           | Inr (err, s2) \<Rightarrow> Inr (err, unlock s2)))"

text \<open>
  \<open>Facility.MessageEx\<close>: the level test on the level as passed, then the sign flip, then
  \<open>logger\<close> with the mutex. \<open>Facility.Message\<close> is \<open>MessageEx\<close> with shift 1 and no
  replacement.
\<close>

definition MessageEx ::
  "string \<Rightarrow> int \<Rightarrow> Level \<Rightarrow> (string \<Rightarrow> string) option \<Rightarrow> string \<Rightarrow> any list \<Rightarrow> ext \<Rightarrow> state
     \<Rightarrow> fault + state" where
  "MessageEx fp shift lv replace message params x s =
     (case facilities s fp of
        None \<Rightarrow> Inl NilDereference
      | Some f \<Rightarrow>
          (if lv \<le> level f
           then logger True (shift + 1) (name f) (if lv < 0 then wrap64 (- lv) else lv)
                  replace message params x s
           else Inr s))"

definition Message :: "string \<Rightarrow> Level \<Rightarrow> string \<Rightarrow> any list \<Rightarrow> ext \<Rightarrow> state \<Rightarrow> fault + state" where
  "Message fp lv message params x s = MessageEx fp 1 lv None message params x s"

section \<open>Auxiliary notions for the statements\<close>

text \<open>Fields that neither writing nor opening the log file touches.\<close>

definition same_ctl :: "state \<Rightarrow> state \<Rightarrow> bool" where
  "same_ctl s t \<longleftrightarrow>
     mutex t = mutex s \<and> enabled t = enabled s \<and> active t = active s \<and> pid t = pid s
     \<and> maxLen t = maxLen s \<and> logFuncName t = logFuncName s
     \<and> fileNamePattern t = fileNamePattern s \<and> lastBuf t = lastBuf s
     \<and> facilities t = facilities s \<and> stdFacility t = stdFacility s
     \<and> alertLog t = alertLog s \<and> alertSubscribers t = alertSubscribers s
     \<and> consoleWriter t = consoleWriter s"

text \<open>The banner as \<open>openLogFile\<close> writes it: truncated, with the end-of-line marker.\<close>

definition banner_line :: "ext \<Rightarrow> state \<Rightarrow> string" where
  "banner_line x s = truncate_to (maxLen s) (banner x s) @ EOS x"

text \<open>
  The three-way branch of \<open>logger\<close> on the pre-open buffer and its two lines on the ring,
  as functions of the buffer and the line.
\<close>

definition pre_push :: "string list \<Rightarrow> string \<Rightarrow> string list" where
  "pre_push b t =
     (if length b > beforeFileBufSize then b
      else if length b < beforeFileBufSize then b @ [t]
      else b @ [''...''])"

definition ring_push :: "string list \<Rightarrow> string \<Rightarrow> string list" where
  "ring_push r t = (if length r \<ge> lastBufSize then tl r else r) @ [t]"

text \<open>
  One call of \<open>logger\<close> through the locking path with its arguments, the line it
  formats, and a run of such calls one after the other.
\<close>

record emit =
  e_shift :: int
  e_facility :: string
  e_level :: Level
  e_replace :: "(string \<Rightarrow> string) option"
  e_message :: string
  e_params :: "any list"
  e_ext :: ext

definition emit_text :: "emit \<Rightarrow> state \<Rightarrow> string" where
  "emit_text c s =
     logger_text (e_shift c) (e_facility c) (e_level c) (e_replace c) (e_message c) (e_params c)
       (e_ext c) s"

fun logger_seq :: "emit list \<Rightarrow> state \<Rightarrow> fault + state" where
  "logger_seq [] s = Inr s"
| "logger_seq (c # cs) s =
     (case logger True (e_shift c) (e_facility c) (e_level c) (e_replace c) (e_message c)
             (e_params c) (e_ext c) s of
        Inl e \<Rightarrow> Inl e
      | Inr s1 \<Rightarrow> logger_seq cs s1)"

text \<open>The state in which a locking call of \<open>logger\<close> returns.\<close>

definition after_logger ::
  "int \<Rightarrow> string \<Rightarrow> Level \<Rightarrow> (string \<Rightarrow> string) option \<Rightarrow> string \<Rightarrow> any list \<Rightarrow> ext \<Rightarrow> state \<Rightarrow> state" where
  "after_logger sh fac lv rep msg ps x s =
     unlock (logger_body sh fac lv rep msg ps x (s\<lparr>mutex := True\<rparr>))"

text \<open>
  The registry invariant: a facility is registered under its own name and its level is a
  code of the level table. \<open>NewFacility\<close> and \<open>setLogLevel\<close> keep it.
\<close>

definition wf_facilities :: "state \<Rightarrow> bool" where
  "wf_facilities s \<longleftrightarrow>
     (\<forall>fp f. facilities s fp = Some f \<longrightarrow> name f = fp \<and> 0 \<le> level f \<and> level f < 14)"

text \<open>The level name \<open>SetLogLevels\<close> applies to a facility: its override, else the default.\<close>

definition wanted :: "string \<Rightarrow> (string \<rightharpoonup> string) \<Rightarrow> string \<Rightarrow> string" where
  "wanted defaultLevelName overrides fp =
     (case overrides fp of Some l \<Rightarrow> l | None \<Rightarrow> defaultLevelName)"

section \<open>Sample inputs\<close>

text \<open>
  An environment with a fixed clock, a \<open>Sprintf\<close> that returns the format (no verbs to
  substitute), a line feed for \<open>misc.EOS\<close> and no alert subscriber; the state in which
  \<open>init\<close> leaves the package for process id 7; and a call at \<open>INFO\<close> on the standard
  facility.
\<close>

definition x0 :: ext where
  "x0 = \<lparr>now_date = ''2024-05-01'', now_time = ''10:00:00.000'',
          now_stamp = ''2024-05-01 10:00:00.000'', getFuncName = (\<lambda>n b. ''main.main''),
          sprintf = (\<lambda>f ps. f), EOS = [CHR 0x0A], open_ok = True, appName = ''app'',
          appVersion = ''1.0'', appTags = [], buildTime = [], appStartTime = ''2024-05-01 09:59:59'',
          cmdLine = ''app'', alert_order = []\<rparr>"

definition s0 :: state where
  "s0 = package_vars\<lparr>pid := 7, facilities := [[] \<mapsto> \<lparr>name = [], level = DEBUG\<rparr>],
                      stdFacility := Some [], consoleWriter := True\<rparr>"

definition sample_emit :: "string \<Rightarrow> emit" where
  "sample_emit m = \<lparr>e_shift = 1, e_facility = [], e_level = INFO, e_replace = None,
                     e_message = m, e_params = [], e_ext = x0\<rparr>"

text \<open>The state after \<open>init\<close> with the destination set to the buffer-only pattern.\<close>

definition s_dash :: state where
  "s_dash = s0\<lparr>fileNamePattern := ''-''\<rparr>"

text \<open>
  The state after \<open>init\<close> with two alert subscribers, and an environment in which the
  runtime enumerates them as 2, 1.
\<close>

definition s_subs :: state where
  "s_subs = s0\<lparr>alertSubscribers := {1, 2}\<rparr>"

definition x_subs :: ext where
  "x_subs = x0\<lparr>alert_order := [2, 1]\<rparr>"

text \<open>The state after \<open>init\<close> and the creation of the facilities \<open>db\<close> and \<open>net\<close>.\<close>

definition s3 :: state where
  "s3 = s0\<lparr>facilities := [[] \<mapsto> \<lparr>name = [], level = DEBUG\<rparr>,
                            ''db'' \<mapsto> \<lparr>name = ''db'', level = DEBUG\<rparr>,
                            ''net'' \<mapsto> \<lparr>name = ''net'', level = DEBUG\<rparr>]\<rparr>"

section \<open>Properties of the level table\<close>

lemmas Level_defs = EMERG_def ALERT_def CRIT_def ERR_def WARNING_def NOTICE_def INFO_def
  TIME_def DEBUG_def TRACE1_def TRACE2_def TRACE3_def TRACE4_def UNKNOWN_def

lemma set_levels_cases:
  "d \<in> set levels \<Longrightarrow> d = levels ! 0 \<or> d = levels ! 1 \<or> d = levels ! 2 \<or> d = levels ! 3
     \<or> d = levels ! 4 \<or> d = levels ! 5 \<or> d = levels ! 6 \<or> d = levels ! 7 \<or> d = levels ! 8
     \<or> d = levels ! 9 \<or> d = levels ! 10 \<or> d = levels ! 11 \<or> d = levels ! 12 \<or> d = levels ! 13"
  unfolding levels_def by simp

lemma Str2Level_table:
  "d \<in> set levels \<Longrightarrow>
     Str2Level (logLevelDef.name d) = (code d, True) \<and> Str2Level (shortName d) = (code d, True)"
  by (drule set_levels_cases) (elim disjE; simp add: levels_def Str2Level_def)

lemma levels_at_code: "d \<in> set levels \<Longrightarrow> levels_at (code d) = Inr d"
  by (drule set_levels_cases) (elim disjE; simp add: levels_def levels_at_def Level_defs)

lemma Str2Level_loop_range:
  "\<forall>d \<in> set ds. 0 \<le> code d \<and> code d < 14 \<Longrightarrow>
     0 \<le> fst (Str2Level_loop ds s) \<and> fst (Str2Level_loop ds s) < 14"
  by (induction ds) (simp_all add: UNKNOWN_def)

lemma levels_codes: "\<forall>d \<in> set levels. 0 \<le> code d \<and> code d < 14"
  by (simp add: levels_def Level_defs)

lemma Str2Level_range: "0 \<le> fst (Str2Level s) \<and> fst (Str2Level s) < 14"
  unfolding Str2Level_def by (rule Str2Level_loop_range[OF levels_codes])

lemma length_levels: "length levels = 14"
  by (simp add: levels_def)

lemma levels_at_Str2Level: "levels_at (fst (Str2Level s)) = Inr (levels ! nat (fst (Str2Level s)))"
  using Str2Level_range[of s] by (simp add: levels_at_def length_levels)

text \<open>
  C8. Every long or short name \<open>s\<close> of the level table parses (\<open>Str2Level\<close> returns ok), to
  the code of its entry, and \<open>GetLogLevelName\<close> of that code returns the entry's
  (short, long) pair, which contains \<open>s\<close>.
\<close>

theorem Str2Level_GetLogLevelName_roundtrip:
  assumes "d \<in> set levels" and "s = logLevelDef.name d \<or> s = shortName d"
  shows "Str2Level s = (code d, True)
         \<and> GetLogLevelName (code d) = Inr (shortName d, logLevelDef.name d)
         \<and> (s = shortName d \<or> s = logLevelDef.name d)"
proof -
  have "Str2Level s = (code d, True)"
    using assms Str2Level_table[of d] by blast
  moreover have "GetLogLevelName (code d) = Inr (shortName d, logLevelDef.name d)"
    by (simp add: GetLogLevelName_def levels_at_code[OF assms(1)])
  ultimately show ?thesis using assms(2) by blast
qed

theorem Str2Level_GetLogLevelName_roundtrip_witness:
  "Str2Level ''DE'' = (DEBUG, True) \<and> GetLogLevelName DEBUG = Inr (''DE'', ''DEBUG'')"
  using Str2Level_GetLogLevelName_roundtrip
          [of "\<lparr>code = DEBUG, logLevelDef.name = ''DEBUG'', shortName = ''DE''\<rparr>" "''DE''"]
  by (simp add: levels_def)

section \<open>Properties of the logger\<close>

lemma same_ctl_refl: "same_ctl s s"
  by (simp add: same_ctl_def)

lemma same_ctl_trans: "same_ctl s t \<Longrightarrow> same_ctl t u \<Longrightarrow> same_ctl s u"
  by (simp add: same_ctl_def)

lemma same_ctl_write_log: "same_ctl s (write_log str s)"
  by (simp add: same_ctl_def write_log_def)

lemma write_log_keeps: "consoleOut (write_log str s) = consoleOut s"
  "firstTime (write_log str s) = firstTime s" "logfile (write_log str s) = logfile s"
  "beforeFileBuf (write_log str s) = beforeFileBuf s"
  by (simp_all add: write_log_def)

lemma fold_write_log_keeps:
  "same_ctl s (fold write_log bs s) \<and> consoleOut (fold write_log bs s) = consoleOut s
   \<and> firstTime (fold write_log bs s) = firstTime s \<and> logfile (fold write_log bs s) = logfile s"
proof (induction bs arbitrary: s)
  case Nil
  show ?case by (simp add: same_ctl_refl)
next
  case (Cons b bs)
  from Cons[of "write_log b s"] same_ctl_write_log[of s b] show ?case
    by (auto simp: write_log_keeps intro: same_ctl_trans)
qed

lemma banner_cong: "pid t = pid s \<Longrightarrow> banner x t = banner x s"
  by (simp add: banner_def)

lemma openLogFile_same_ctl: "same_ctl s (openLogFile dt x s)"
  using fold_write_log_keeps
  by (simp add: openLogFile_def Let_def same_ctl_def writeToConsole_def write_log_def)

lemma openLogFile_consoleOut:
  "consoleOut (openLogFile dt x s) =
     consoleOut s @ (if firstTime s \<and> consoleWriter s then [banner_line x s] else [])"
proof -
  have k: "\<And>bs t. consoleOut (fold write_log bs t) = consoleOut t"
          "\<And>bs t. firstTime (fold write_log bs t) = firstTime t"
          "\<And>bs t. consoleWriter (fold write_log bs t) = consoleWriter t"
    using fold_write_log_keeps by (simp_all add: same_ctl_def)
  show ?thesis
    by (simp add: openLogFile_def Let_def writeToConsole_def write_log_def k banner_line_def
        banner_def)
qed

lemma logger_persist_same_ctl: "same_ctl s (logger_persist txt x s)"
  using openLogFile_same_ctl[of s "now_date x" x]
  by (simp add: logger_persist_def Let_def same_ctl_def write_log_def)

lemma logger_persist_consoleOut:
  "consoleOut (logger_persist txt x s) = consoleOut s
   \<or> consoleOut (logger_persist txt x s) = consoleOut s @ [banner_line x s]"
  by (simp add: logger_persist_def Let_def write_log_def openLogFile_consoleOut)

lemma logger_persist_pre_open:
  "active s \<Longrightarrow> fileNamePattern s = [] \<Longrightarrow>
     beforeFileBuf (logger_persist txt x s) = pre_push (beforeFileBuf s) txt
     \<and> consoleOut (logger_persist txt x s) = consoleOut s"
  by (simp add: logger_persist_def Let_def pre_push_def)

lemma logger_text_cong:
  "pid t = pid s \<Longrightarrow> maxLen t = maxLen s \<Longrightarrow> logFuncName t = logFuncName s \<Longrightarrow>
     logger_text sh fac lv rep msg ps x t = logger_text sh fac lv rep msg ps x s"
  by (simp add: logger_text_def)

lemma logger_body_fields:
  defines "txt \<equiv> \<lambda>sh fac lv rep msg ps x s. logger_text sh fac lv rep msg ps x s"
  shows "same_ctl (s\<lparr>lastBuf := ring_push (lastBuf s) (txt sh fac lv rep msg ps x s)\<rparr>)
           (logger_body sh fac lv rep msg ps x s)"
  using logger_persist_same_ctl[of s "logger_text sh fac lv rep msg ps x s" x]
  by (simp add: logger_body_def Let_def writeToConsole_def logger_ring_def same_ctl_def
      ring_push_def txt_def)

lemma logger_locked_returns:
  "enabled s \<Longrightarrow> \<not> mutex s \<Longrightarrow>
     logger True sh fac lv rep msg ps x s = Inr (after_logger sh fac lv rep msg ps x s)"
  by (simp add: logger_def lock_def after_logger_def)

lemma logger_unlocked_returns:
  "enabled s \<Longrightarrow> logger False sh fac lv rep msg ps x s = Inr (logger_body sh fac lv rep msg ps x s)"
  by (simp add: logger_def)

lemma logger_disabled: "\<not> enabled s \<Longrightarrow> logger wl sh fac lv rep msg ps x s = Inr s"
  by (simp add: logger_def)

lemma logger_body_lastBuf:
  "lastBuf (logger_body sh fac lv rep msg ps x s)
     = ring_push (lastBuf s) (logger_text sh fac lv rep msg ps x s)"
  using logger_body_fields[of s sh fac lv rep msg ps x] by (simp add: same_ctl_def)

lemma logger_body_consoleOut:
  "consoleWriter s \<Longrightarrow>
     consoleOut (logger_body sh fac lv rep msg ps x s)
       = consoleOut s @ [logger_text sh fac lv rep msg ps x s]
     \<or> consoleOut (logger_body sh fac lv rep msg ps x s)
       = consoleOut s @ [banner_line x s, logger_text sh fac lv rep msg ps x s]"
  using logger_persist_consoleOut[of "logger_text sh fac lv rep msg ps x s" x s]
        logger_persist_same_ctl[of s "logger_text sh fac lv rep msg ps x s" x]
  by (auto simp: logger_body_def Let_def writeToConsole_def logger_ring_def same_ctl_def)

lemma logger_body_beforeFileBuf:
  "active s \<Longrightarrow> fileNamePattern s = [] \<Longrightarrow>
     beforeFileBuf (logger_body sh fac lv rep msg ps x s)
       = pre_push (beforeFileBuf s) (logger_text sh fac lv rep msg ps x s)"
  using logger_persist_pre_open[of s "logger_text sh fac lv rep msg ps x s" x]
  by (simp add: logger_body_def Let_def writeToConsole_def logger_ring_def)

lemma after_logger_fields:
  assumes "\<not> mutex s"
  shows "same_ctl (s\<lparr>lastBuf := ring_push (lastBuf s) (logger_text sh fac lv rep msg ps x s)\<rparr>)
           (after_logger sh fac lv rep msg ps x s)"
  using logger_body_fields[of "s\<lparr>mutex := True\<rparr>" sh fac lv rep msg ps x] assms
        logger_text_cong[of "s\<lparr>mutex := True\<rparr>" s sh fac lv rep msg ps x]
  by (simp add: after_logger_def unlock_def same_ctl_def)

lemma after_logger_beforeFileBuf:
  "active s \<Longrightarrow> fileNamePattern s = [] \<Longrightarrow>
     beforeFileBuf (after_logger sh fac lv rep msg ps x s)
       = pre_push (beforeFileBuf s) (logger_text sh fac lv rep msg ps x s)"
  using logger_body_beforeFileBuf[of "s\<lparr>mutex := True\<rparr>" sh fac lv rep msg ps x]
        logger_text_cong[of "s\<lparr>mutex := True\<rparr>" s sh fac lv rep msg ps x]
  by (simp add: after_logger_def unlock_def)

lemma after_logger_consoleOut:
  "consoleWriter s \<Longrightarrow>
     consoleOut (after_logger sh fac lv rep msg ps x s)
       = consoleOut s @ [logger_text sh fac lv rep msg ps x s]
     \<or> consoleOut (after_logger sh fac lv rep msg ps x s)
       = consoleOut s @ [banner_line x s, logger_text sh fac lv rep msg ps x s]"
  using logger_body_consoleOut[of "s\<lparr>mutex := True\<rparr>" sh fac lv rep msg ps x]
        logger_text_cong[of "s\<lparr>mutex := True\<rparr>" s sh fac lv rep msg ps x]
  by (simp add: after_logger_def unlock_def banner_line_def banner_def)

lemma foldl_pre_push_full:
  "length b > beforeFileBufSize \<Longrightarrow> foldl pre_push b ts = b"
  by (induction ts) (simp_all add: pre_push_def)

lemma foldl_pre_push:
  "length b \<le> beforeFileBufSize \<Longrightarrow>
     foldl pre_push b ts =
       (if length b + length ts \<le> beforeFileBufSize then b @ ts
        else take beforeFileBufSize (b @ ts) @ [''...''])"
proof (induction ts arbitrary: b)
  case Nil
  then show ?case by simp
next
  case (Cons t ts)
  show ?case
  proof (cases "length b < beforeFileBufSize")
    case True
    then have "pre_push b t = b @ [t]" by (simp add: pre_push_def)
    moreover have "length (b @ [t]) \<le> beforeFileBufSize" using True by simp
    ultimately show ?thesis using Cons.IH[of "b @ [t]"] by simp
  next
    case False
    with Cons.prems have len: "length b = beforeFileBufSize" by simp
    then have "pre_push b t = b @ [''...'']" by (simp add: pre_push_def)
    then have "foldl pre_push b (t # ts) = b @ [''...'']"
      using foldl_pre_push_full[of "b @ [''...'']" ts] len by simp
    then show ?thesis using len by simp
  qed
qed

lemma ring_push_drop:
  "length r \<le> lastBufSize \<Longrightarrow> ring_push r t = drop (length (r @ [t]) - lastBufSize) (r @ [t])"
  by (cases r) (auto simp: ring_push_def lastBufSize_def)

lemma foldl_ring_push:
  "length r \<le> lastBufSize \<Longrightarrow>
     foldl ring_push r ts = drop (length (r @ ts) - lastBufSize) (r @ ts)"
proof (induction ts arbitrary: r)
  case Nil
  then show ?case by simp
next
  case (Cons t ts)
  let ?k = "length (r @ [t]) - lastBufSize"
  let ?zs = "r @ t # ts"
  have r': "ring_push r t = drop ?k (r @ [t])" using Cons.prems by (rule ring_push_drop)
  have len: "length (ring_push r t) \<le> lastBufSize" unfolding r' using Cons.prems by simp
  have app: "ring_push r t @ ts = drop ?k ?zs"
    unfolding r' by (simp add: lastBufSize_def)
  have idx: "(length (drop ?k ?zs) - lastBufSize) + ?k = length ?zs - lastBufSize"
    using Cons.prems by (simp add: lastBufSize_def)
  have "foldl ring_push r (t # ts) = foldl ring_push (ring_push r t) ts" by simp
  also have "\<dots> = drop (length (ring_push r t @ ts) - lastBufSize) (ring_push r t @ ts)"
    using Cons.IH[OF len] .
  also have "\<dots> = drop (length (drop ?k ?zs) - lastBufSize) (drop ?k ?zs)"
    by (simp only: app)
  also have "\<dots> = drop ((length (drop ?k ?zs) - lastBufSize) + ?k) ?zs"
    by (simp only: drop_drop)
  also have "\<dots> = drop (length ?zs - lastBufSize) ?zs"
    by (simp only: idx)
  finally show ?case .
qed

section \<open>Runs of emits\<close>

lemma same_ctl_lastBuf_step:
  "same_ctl (s\<lparr>lastBuf := a\<rparr>) s1 \<Longrightarrow> same_ctl (s1\<lparr>lastBuf := b\<rparr>) s2 \<Longrightarrow>
     same_ctl (s\<lparr>lastBuf := b\<rparr>) s2"
  by (simp add: same_ctl_def)

lemma logger_seq_run:
  assumes "enabled s" and "\<not> mutex s"
  shows "\<not> isl (logger_seq cs s)
         \<and> same_ctl (s\<lparr>lastBuf := foldl ring_push (lastBuf s) (map (\<lambda>c. emit_text c s) cs)\<rparr>)
              (projr (logger_seq cs s))
         \<and> (active s \<and> fileNamePattern s = [] \<longrightarrow>
              beforeFileBuf (projr (logger_seq cs s))
                = foldl pre_push (beforeFileBuf s) (map (\<lambda>c. emit_text c s) cs))"
  using assms
proof (induction cs arbitrary: s)
  case Nil
  then show ?case by (simp add: same_ctl_def)
next
  case (Cons c cs)
  let ?s1 = "after_logger (e_shift c) (e_facility c) (e_level c) (e_replace c) (e_message c)
               (e_params c) (e_ext c) s"
  let ?r = "logger_seq cs ?s1"
  have step: "logger_seq (c # cs) s = ?r"
    using Cons.prems by (simp add: logger_locked_returns)
  have ctl: "same_ctl (s\<lparr>lastBuf := ring_push (lastBuf s) (emit_text c s)\<rparr>) ?s1"
    using after_logger_fields[OF Cons.prems(2)] by (simp add: emit_text_def)
  have en: "enabled ?s1" "\<not> mutex ?s1"
    using ctl Cons.prems by (simp_all add: same_ctl_def)
  have etx1: "\<And>c'. emit_text c' ?s1 = emit_text c' s"
    unfolding emit_text_def by (rule logger_text_cong) (use ctl in \<open>simp_all add: same_ctl_def\<close>)
  have etx: "(\<lambda>c'. emit_text c' ?s1) = (\<lambda>c'. emit_text c' s)"
    by (simp only: etx1)
  have act: "active ?s1 = active s" "fileNamePattern ?s1 = fileNamePattern s"
            "lastBuf ?s1 = ring_push (lastBuf s) (emit_text c s)"
    using ctl by (simp_all add: same_ctl_def)
  note IH = Cons.IH[OF en, unfolded etx act]
  have 1: "\<not> isl ?r" using IH by simp
  have 2: "same_ctl (s\<lparr>lastBuf := foldl ring_push (lastBuf s)
                                      (map (\<lambda>c. emit_text c s) (c # cs))\<rparr>) (projr ?r)"
    using same_ctl_lastBuf_step[OF ctl conjunct1[OF conjunct2[OF IH]]] by simp
  have 3: "active s \<and> fileNamePattern s = [] \<longrightarrow>
             beforeFileBuf (projr ?r)
               = foldl pre_push (beforeFileBuf s) (map (\<lambda>c. emit_text c s) (c # cs))"
  proof
    assume a: "active s \<and> fileNamePattern s = []"
    have "beforeFileBuf ?s1 = pre_push (beforeFileBuf s) (emit_text c s)"
      using after_logger_beforeFileBuf[of s] a by (simp add: emit_text_def)
    then show "beforeFileBuf (projr ?r)
                 = foldl pre_push (beforeFileBuf s) (map (\<lambda>c. emit_text c s) (c # cs))"
      using IH a by simp
  qed
  show ?case unfolding step using 1 2 3 by blast
qed

lemma s0_fields:
  "enabled s0" "\<not> mutex s0" "active s0" "fileNamePattern s0 = []" "beforeFileBuf s0 = []"
  "lastBuf s0 = []" "consoleWriter s0" "pid s0 = 7" "maxLen s0 = 0"
  "logFuncName s0 = logFuncNameNone" "consoleOut s0 = []" "firstTime s0"
  "facilities s0 [] = Some \<lparr>name = [], level = DEBUG\<rparr>" "alertLog s0 = []"
  by (simp_all add: s0_def package_vars_def)

lemma show_int_7: "show_int 7 = ''7''"
  by (simp add: show_int_def show_nat.simps)

lemma sample_text:
  "pid s = 7 \<Longrightarrow> maxLen s = 0 \<Longrightarrow> logFuncName s = logFuncNameNone \<Longrightarrow>
   emit_text (sample_emit m) s = ''[7] IN 2024-05-01 10:00:00.000 '' @ m @ [CHR 0x0A]"
  by (simp add: emit_text_def sample_emit_def logger_text_def x0_def show_int_7 truncate_to_def
      levels_def Level_defs logFuncNameNone_def logFuncNameFull_def logFuncNameShort_def)

text \<open>
  C3. A run of locking \<open>logger\<close> calls from a state whose ring holds at most
  \<open>lastBufSize\<close> = 10 lines returns, leaves at most 10 lines in the ring, and the ring is
  the last 10 of the lines it held followed by the lines emitted, in order. From an empty
  ring, after 11 emits the ring is the emitted lines without the first: the oldest is gone
  and the newest is the last entry.
\<close>

theorem lastBuf_bounded_fifo:
  assumes "enabled s" and "\<not> mutex s" and "length (lastBuf s) \<le> lastBufSize"
  shows "\<not> isl (logger_seq cs s)
         \<and> length (lastBuf (projr (logger_seq cs s))) \<le> lastBufSize
         \<and> lastBuf (projr (logger_seq cs s))
             = drop (length (lastBuf s @ map (\<lambda>c. emit_text c s) cs) - lastBufSize)
                 (lastBuf s @ map (\<lambda>c. emit_text c s) cs)
         \<and> (lastBuf s = [] \<and> length cs = Suc lastBufSize \<longrightarrow>
               lastBuf (projr (logger_seq cs s)) = tl (map (\<lambda>c. emit_text c s) cs))"
proof -
  let ?ts = "map (\<lambda>c. emit_text c s) cs"
  let ?r = "logger_seq cs s"
  from logger_seq_run[OF assms(1,2), of cs]
  have ok: "\<not> isl ?r" and lb: "lastBuf (projr ?r) = foldl ring_push (lastBuf s) ?ts"
    by (simp_all add: same_ctl_def)
  have win: "lastBuf (projr ?r) = drop (length (lastBuf s @ ?ts) - lastBufSize) (lastBuf s @ ?ts)"
    unfolding lb using assms(3) by (rule foldl_ring_push)
  have len: "length (lastBuf (projr ?r)) \<le> lastBufSize"
    unfolding win by simp
  have one: "lastBuf s = [] \<and> length cs = Suc lastBufSize \<longrightarrow> lastBuf (projr ?r) = tl ?ts"
    unfolding win by (simp add: drop_Suc)
  show ?thesis using ok len win one by blast
qed

theorem lastBuf_bounded_fifo_witness:
  "enabled s0 \<and> \<not> mutex s0 \<and> length (lastBuf s0) \<le> lastBufSize
   \<and> \<not> isl (logger_seq (map sample_emit [''m1'', ''m2'', ''m3'', ''m4'', ''m5'', ''m6'', ''m7'',
                                            ''m8'', ''m9'', ''m10'', ''m11'']) s0)
   \<and> lastBuf (projr (logger_seq (map sample_emit [''m1'', ''m2'', ''m3'', ''m4'', ''m5'', ''m6'',
                                    ''m7'', ''m8'', ''m9'', ''m10'', ''m11'']) s0))
       = map (\<lambda>m. ''[7] IN 2024-05-01 10:00:00.000 '' @ m @ [CHR 0x0A])
           [''m2'', ''m3'', ''m4'', ''m5'', ''m6'', ''m7'', ''m8'', ''m9'', ''m10'', ''m11'']"
  using lastBuf_bounded_fifo[of s0 "map sample_emit [''m1'', ''m2'', ''m3'', ''m4'', ''m5'', ''m6'',
                                    ''m7'', ''m8'', ''m9'', ''m10'', ''m11'']"]
  by (simp add: s0_fields sample_text lastBufSize_def)

section \<open>The pre-open buffer\<close>

text \<open>
  C2 (amended). While there is no file name pattern and logging is active, a run of emits
  from a pre-open buffer of at most \<open>beforeFileBufSize\<close> = 500 lines returns; the buffer
  takes the emitted lines up to 500 entries in all, the emit that finds it at 500 appends
  the marker \<open>...\<close> as entry 501, and no later emit adds anything: the buffer never has
  more than 501 entries.
\<close>

theorem beforeFileBuf_marker_after_capacity:
  assumes "enabled s" and "\<not> mutex s" and "active s" and "fileNamePattern s = []"
    and "length (beforeFileBuf s) \<le> beforeFileBufSize"
  shows "\<not> isl (logger_seq cs s)
         \<and> beforeFileBuf (projr (logger_seq cs s))
             = (if length (beforeFileBuf s) + length cs \<le> beforeFileBufSize
                then beforeFileBuf s @ map (\<lambda>c. emit_text c s) cs
                else take beforeFileBufSize (beforeFileBuf s @ map (\<lambda>c. emit_text c s) cs)
                       @ [''...''])
         \<and> length (beforeFileBuf (projr (logger_seq cs s))) \<le> Suc beforeFileBufSize"
proof -
  let ?ts = "map (\<lambda>c. emit_text c s) cs"
  let ?r = "logger_seq cs s"
  from logger_seq_run[OF assms(1,2), of cs] assms(3,4)
  have ok: "\<not> isl ?r" and bb: "beforeFileBuf (projr ?r) = foldl pre_push (beforeFileBuf s) ?ts"
    by simp_all
  have eq: "beforeFileBuf (projr ?r)
             = (if length (beforeFileBuf s) + length cs \<le> beforeFileBufSize
                then beforeFileBuf s @ ?ts
                else take beforeFileBufSize (beforeFileBuf s @ ?ts) @ [''...''])"
    unfolding bb using foldl_pre_push[OF assms(5), of ?ts] by simp
  have len: "length (beforeFileBuf (projr ?r)) \<le> Suc beforeFileBufSize"
    unfolding eq using assms(5) by simp
  show ?thesis using ok eq len by blast
qed

theorem beforeFileBuf_marker_after_capacity_witness:
  "enabled s0 \<and> \<not> mutex s0 \<and> active s0 \<and> fileNamePattern s0 = []
   \<and> length (beforeFileBuf s0) \<le> beforeFileBufSize
   \<and> \<not> isl (logger_seq (replicate 502 (sample_emit ''m'')) s0)
   \<and> beforeFileBuf (projr (logger_seq (replicate 502 (sample_emit ''m'')) s0))
       = replicate 500 (''[7] IN 2024-05-01 10:00:00.000 m'' @ [CHR 0x0A]) @ [''...'']"
  using beforeFileBuf_marker_after_capacity[of s0 "replicate 502 (sample_emit ''m'')"]
  by (simp add: s0_fields sample_text beforeFileBufSize_def)

text \<open>
  C2 as stated fails: after 501 emits from the initial state the pre-open buffer has 501
  entries, one more than its capacity.
\<close>

theorem beforeFileBuf_exceeds_capacity:
  "\<not> isl (logger_seq (replicate 501 (sample_emit ''m'')) s0)
   \<and> length (beforeFileBuf (projr (logger_seq (replicate 501 (sample_emit ''m'')) s0))) = 501
   \<and> \<not> length (beforeFileBuf (projr (logger_seq (replicate 501 (sample_emit ''m'')) s0)))
         \<le> beforeFileBufSize"
proof -
  let ?cs = "replicate 501 (sample_emit ''m'')"
  from logger_seq_run[of s0 ?cs]
  have ok: "\<not> isl (logger_seq ?cs s0)"
    and bb: "beforeFileBuf (projr (logger_seq ?cs s0))
               = foldl pre_push [] (map (\<lambda>c. emit_text c s0) ?cs)"
    by (simp_all add: s0_fields)
  have "length (beforeFileBuf (projr (logger_seq ?cs s0))) = 501"
    unfolding bb using foldl_pre_push[of "[]" "map (\<lambda>c. emit_text c s0) ?cs"]
    by (simp add: beforeFileBufSize_def)
  then show ?thesis using ok by (simp add: beforeFileBufSize_def)
qed

section \<open>Ring and console\<close>

text \<open>
  C9. With logging enabled, every call of \<open>logger\<close> returns (through the locking path when
  the mutex is free), appends its line to the ring after dropping the oldest line of a full
  ring, and, when a console sink is set, writes the line to the console as the last
  write, preceded at most by the launch banner. Nothing is assumed of \<open>active\<close>, the file
  name pattern, the open file or the success of opening it.
\<close>

theorem logger_ring_and_console_always:
  assumes "enabled s" and "withLock \<longrightarrow> \<not> mutex s"
  shows "\<not> isl (logger withLock sh fac lv rep msg ps x s)
         \<and> lastBuf (projr (logger withLock sh fac lv rep msg ps x s))
             = (if length (lastBuf s) \<ge> lastBufSize then tl (lastBuf s) else lastBuf s)
                 @ [logger_text sh fac lv rep msg ps x s]
         \<and> (consoleWriter s \<longrightarrow>
               consoleOut (projr (logger withLock sh fac lv rep msg ps x s))
                 = consoleOut s @ [logger_text sh fac lv rep msg ps x s]
               \<or> consoleOut (projr (logger withLock sh fac lv rep msg ps x s))
                 = consoleOut s @ [banner_line x s, logger_text sh fac lv rep msg ps x s])"
proof (cases withLock)
  case True
  with assms have r: "logger withLock sh fac lv rep msg ps x s
                        = Inr (after_logger sh fac lv rep msg ps x s)"
    by (simp add: logger_locked_returns)
  from True assms have nm: "\<not> mutex s" by simp
  have lb: "lastBuf (after_logger sh fac lv rep msg ps x s)
              = ring_push (lastBuf s) (logger_text sh fac lv rep msg ps x s)"
    using after_logger_fields[OF nm, of sh fac lv rep msg ps x] by (simp add: same_ctl_def)
  show ?thesis
    unfolding r using lb after_logger_consoleOut[of s sh fac lv rep msg ps x]
    by (simp add: ring_push_def)
next
  case False
  with assms have r: "logger withLock sh fac lv rep msg ps x s
                        = Inr (logger_body sh fac lv rep msg ps x s)"
    by (simp add: logger_unlocked_returns)
  show ?thesis
    unfolding r using logger_body_lastBuf[of sh fac lv rep msg ps x s]
      logger_body_consoleOut[of s sh fac lv rep msg ps x]
    by (simp add: ring_push_def)
qed

lemma s_dash_fields:
  "enabled s_dash" "\<not> mutex s_dash" "lastBuf s_dash = []" "consoleWriter s_dash"
  "consoleOut s_dash = []" "fileNamePattern s_dash = ''-''"
  by (simp_all add: s_dash_def s0_def package_vars_def)

lemma logger_text_sample:
  "pid s = 7 \<Longrightarrow> maxLen s = 0 \<Longrightarrow> logFuncName s = logFuncNameNone \<Longrightarrow>
     logger_text 1 [] INFO None m [] x0 s = ''[7] IN 2024-05-01 10:00:00.000 '' @ m @ [CHR 0x0A]"
  using sample_text[of s m] by (simp add: emit_text_def sample_emit_def)

theorem logger_ring_and_console_always_witness:
  "enabled s_dash \<and> \<not> mutex s_dash \<and> fileNamePattern s_dash = ''-''
   \<and> \<not> isl (logger True 1 [] INFO None ''hello'' [] x0 s_dash)
   \<and> lastBuf (projr (logger True 1 [] INFO None ''hello'' [] x0 s_dash))
       = [''[7] IN 2024-05-01 10:00:00.000 hello'' @ [CHR 0x0A]]
   \<and> consoleOut (projr (logger True 1 [] INFO None ''hello'' [] x0 s_dash))
       = [''[7] IN 2024-05-01 10:00:00.000 hello'' @ [CHR 0x0A]]"
proof -
  have c: "consoleOut (projr (logger True 1 [] INFO None ''hello'' [] x0 s_dash))
             = [''[7] IN 2024-05-01 10:00:00.000 hello'' @ [CHR 0x0A]]"
    by (simp add: logger_def lock_def unlock_def logger_body_def logger_persist_def
        logger_ring_def writeToConsole_def s_dash_def s0_def package_vars_def Let_def
        logger_text_sample)
  have t: "logger_text 1 [] INFO None ''hello'' [] x0 s_dash
             = ''[7] IN 2024-05-01 10:00:00.000 hello'' @ [CHR 0x0A]"
    by (simp add: logger_text_sample s_dash_def s0_fields)
  show ?thesis
    using logger_ring_and_console_always[of s_dash True 1 "[]" INFO None "''hello''" "[]" x0] c
    by (simp add: s_dash_fields t lastBufSize_def)
qed

section \<open>Level filtering\<close>










section \<open>Setting a level\<close>

lemma logger_unlocked:
  "logger False sh fac lv rep msg ps x s
     = Inr (if enabled s then logger_body sh fac lv rep msg ps x s else s)"
  by (simp add: logger_def)

lemma logger_unlocked_keeps:
  defines "t \<equiv> \<lambda>sh fac lv rep msg ps x s. projr (logger False sh fac lv rep msg ps x s)"
  shows "facilities (t sh fac lv rep msg ps x s) = facilities s"
    and "alertLog (t sh fac lv rep msg ps x s) = alertLog s"
    and "logFuncName (t sh fac lv rep msg ps x s) = logFuncName s"
    and "mutex (t sh fac lv rep msg ps x s) = mutex s"
    and "alertSubscribers (t sh fac lv rep msg ps x s) = alertSubscribers s"
    and "enabled (t sh fac lv rep msg ps x s) = enabled s"
  using logger_body_fields[of s sh fac lv rep msg ps x]
  by (simp_all add: t_def logger_unlocked same_ctl_def)

lemma logger_unlocked_lastBuf:
  "enabled s \<Longrightarrow>
     lastBuf (projr (logger False sh fac lv rep msg ps x s))
       = ring_push (lastBuf s) (logger_text sh fac lv rep msg ps x s)"
  by (simp add: logger_unlocked logger_body_lastBuf)

lemma levels_at_in_range:
  "0 \<le> lv \<Longrightarrow> lv < 14 \<Longrightarrow> levels_at lv = Inr (levels ! nat lv)"
  by (simp add: levels_at_def length_levels)

lemma setLogLevel_invalid:
  assumes "facilities s fp = Some f" and "\<not> snd (Str2Level levelName)"
    and "0 \<le> level f" and "level f < 14"
  shows "setLogLevel fp levelName funcNameMode x s
           = Inr (level f,
                  Some (invalid_level_msg levelName (logLevelDef.name (levels ! nat (level f)))),
                  projr (logger False 0 (name f) WARNING None
                           (invalid_level_msg levelName (logLevelDef.name (levels ! nat (level f))))
                           [] x (s\<lparr>logFuncName := funcNameMode_code funcNameMode\<rparr>)))"
proof -
  obtain n where n: "Str2Level levelName = (n, False)"
    using assms(2) by (cases "Str2Level levelName") auto
  show ?thesis
    using assms(1,3,4) n
    by (simp add: setLogLevel_def Let_def levels_at_in_range logger_unlocked)
qed

lemma setLogLevel_same:
  assumes "facilities s fp = Some f" and "Str2Level levelName = (level f, True)"
  shows "setLogLevel fp levelName funcNameMode x s
           = Inr (level f, None, s\<lparr>logFuncName := funcNameMode_code funcNameMode\<rparr>)"
  using assms by (simp add: setLogLevel_def Let_def)

lemma setLogLevel_new:
  assumes "facilities s fp = Some f" and "Str2Level levelName = (new, True)"
    and "new \<noteq> level f"
  shows "setLogLevel fp levelName funcNameMode x s
           = Inr (level f, None,
                  projr (logger False 0 (name f) INFO None level_is_msg
                           [AString (logLevelDef.name (levels ! nat new))] x
                           (s\<lparr>logFuncName := funcNameMode_code funcNameMode,
                              alertLog := alertLog s
                                @ map (\<lambda>i. (i, name f, level f, new)) (alert_order x),
                              facilities := (facilities s)(fp \<mapsto> f\<lparr>level := new\<rparr>)\<rparr>)))"
proof -
  have "levels_at new = Inr (levels ! nat new)"
    using levels_at_Str2Level[of levelName] assms(2) by simp
  then show ?thesis
    using assms by (simp add: setLogLevel_def Let_def logger_unlocked)
qed

lemma count_list_distinct:
  "distinct xs \<Longrightarrow> i \<in> set xs \<Longrightarrow> count_list xs i = 1"
  by (induction xs) auto

lemma count_list_map_tag:
  "count_list (map (\<lambda>i. (i, a)) xs) (j, a) = count_list xs j"
  by (induction xs) auto

text \<open>
  C5. For a level name that parses: when the parsed level is the facility's level,
  \<open>setLogLevel\<close> returns the old level and no error and changes nothing in the state but
  the caller-tag mode, so no subscriber is invoked and no line is emitted; when it
  differs, the same call that stores the new level records, for every registered
  subscriber, exactly one invocation with (facility name, old level, new level), and no
  other invocation.
\<close>

theorem setLogLevel_same_level_noop_new_level_alerts:
  assumes "facilities s fp = Some f" and "Str2Level levelName = (new, True)"
    and "distinct (alert_order x)" and "set (alert_order x) = alertSubscribers s"
  shows "(new = level f \<longrightarrow>
            setLogLevel fp levelName funcNameMode x s
              = Inr (level f, None, s\<lparr>logFuncName := funcNameMode_code funcNameMode\<rparr>))
         \<and> (new \<noteq> level f \<longrightarrow>
              \<not> isl (setLogLevel fp levelName funcNameMode x s)
              \<and> fst (projr (setLogLevel fp levelName funcNameMode x s)) = level f
              \<and> fst (snd (projr (setLogLevel fp levelName funcNameMode x s))) = None
              \<and> alertLog (snd (snd (projr (setLogLevel fp levelName funcNameMode x s))))
                  = alertLog s @ map (\<lambda>i. (i, name f, level f, new)) (alert_order x)
              \<and> (\<forall>i \<in> alertSubscribers s.
                    count_list (drop (length (alertLog s))
                      (alertLog (snd (snd (projr (setLogLevel fp levelName funcNameMode x s))))))
                      (i, name f, level f, new) = 1)
              \<and> length (alertLog (snd (snd (projr (setLogLevel fp levelName funcNameMode x s)))))
                  = length (alertLog s) + card (alertSubscribers s)
              \<and> facilities (snd (snd (projr (setLogLevel fp levelName funcNameMode x s))))
                  = (facilities s)(fp \<mapsto> f\<lparr>level := new\<rparr>))"
proof (cases "new = level f")
  case True
  then show ?thesis using setLogLevel_same[OF assms(1), of levelName funcNameMode x] assms(2)
    by simp
next
  case False
  let ?r = "setLogLevel fp levelName funcNameMode x s"
  let ?added = "map (\<lambda>i. (i, name f, level f, new)) (alert_order x)"
  note r = setLogLevel_new[OF assms(1,2) False, of funcNameMode x]
  have al: "alertLog (snd (snd (projr ?r))) = alertLog s @ ?added"
    by (simp add: r logger_unlocked_keeps)
  have fa: "facilities (snd (snd (projr ?r))) = (facilities s)(fp \<mapsto> f\<lparr>level := new\<rparr>)"
    by (simp add: r logger_unlocked_keeps)
  have cnt: "\<forall>i \<in> alertSubscribers s.
               count_list (drop (length (alertLog s)) (alertLog (snd (snd (projr ?r)))))
                 (i, name f, level f, new) = 1"
    unfolding al using assms(3,4)
    by (simp add: count_list_map_tag count_list_distinct)
  have len: "length (alertLog (snd (snd (projr ?r)))) = length (alertLog s) + card (alertSubscribers s)"
    unfolding al using assms(3,4) distinct_card[of "alert_order x"] by simp
  have "\<not> isl ?r" "fst (projr ?r) = level f" "fst (snd (projr ?r)) = None"
    by (simp_all add: r)
  then show ?thesis using False al fa cnt len by blast
qed

lemma Str2Level_samples:
  "Str2Level ''ERR'' = (ERR, True)" "Str2Level ''DEBUG'' = (DEBUG, True)"
  "Str2Level ''bogus'' = (UNKNOWN, False)" "Str2Level ''IN'' = (INFO, True)"
  by (simp_all add: Str2Level_def levels_def)

lemma s_subs_fields:
  "facilities s_subs [] = Some \<lparr>name = [], level = DEBUG\<rparr>" "alertLog s_subs = []"
  "alertSubscribers s_subs = {1, 2}" "alert_order x_subs = [2, 1]"
  by (simp_all add: s_subs_def x_subs_def s0_def package_vars_def x0_def)

theorem setLogLevel_same_level_noop_new_level_alerts_witness:
  "facilities s_subs [] = Some \<lparr>name = [], level = DEBUG\<rparr>
   \<and> Str2Level ''ERR'' = (ERR, True) \<and> Str2Level ''DEBUG'' = (DEBUG, True)
   \<and> distinct (alert_order x_subs) \<and> set (alert_order x_subs) = alertSubscribers s_subs
   \<and> ERR \<noteq> DEBUG
   \<and> setLogLevel [] ''DEBUG'' ''none'' x_subs s_subs
       = Inr (DEBUG, None, s_subs\<lparr>logFuncName := logFuncNameNone\<rparr>)
   \<and> alertLog (snd (snd (projr (setLogLevel [] ''ERR'' ''none'' x_subs s_subs))))
       = [(2, [], DEBUG, ERR), (1, [], DEBUG, ERR)]
   \<and> facilities (snd (snd (projr (setLogLevel [] ''ERR'' ''none'' x_subs s_subs)))) []
       = Some \<lparr>name = [], level = ERR\<rparr>"
  using setLogLevel_same_level_noop_new_level_alerts
          [of s_subs "[]" "\<lparr>name = [], level = DEBUG\<rparr>" "''ERR''" ERR x_subs "''none''"]
        setLogLevel_same_level_noop_new_level_alerts
          [of s_subs "[]" "\<lparr>name = [], level = DEBUG\<rparr>" "''DEBUG''" DEBUG x_subs "''none''"]
  by (simp add: s_subs_fields Str2Level_samples funcNameMode_code_def insert_commute)
     (simp add: Level_defs)

lemma SetLogLevel_unlocked:
  "\<not> mutex s \<Longrightarrow>
     SetLogLevel fp levelName funcNameMode x s
       = (case setLogLevel fp levelName funcNameMode x (s\<lparr>mutex := True\<rparr>) of
            Inl e \<Rightarrow> Inl e
          | Inr (oldLevel, err, s2) \<Rightarrow> Inr (oldLevel, err, unlock s2))"
  by (simp add: SetLogLevel_def lock_def)

text \<open>
  C4. \<open>SetLogLevel\<close> with a level name that does not parse, on a registered facility whose
  level is in the table, returns the old level together with the error text naming the
  rejected name and the retained level; every facility keeps its level, no subscriber is
  invoked, and the call hands \<open>logger\<close> a \<open>WARNING\<close> line for that facility, which (logging
  enabled) is the newest line of the ring and the last write to the console.
\<close>

theorem SetLogLevel_invalid_name:
  assumes "facilities s fp = Some f" and "\<not> snd (Str2Level levelName)"
    and "0 \<le> level f" and "level f < 14" and "\<not> mutex s"
  shows "let r = SetLogLevel fp levelName funcNameMode x s;
             s' = snd (snd (projr r));
             msg = invalid_level_msg levelName (logLevelDef.name (levels ! nat (level f)));
             line = logger_text 0 (name f) WARNING None msg [] x
                      (s\<lparr>logFuncName := funcNameMode_code funcNameMode\<rparr>)
         in \<not> isl r \<and> fst (projr r) = level f \<and> fst (snd (projr r)) = Some msg
            \<and> facilities s' = facilities s \<and> alertLog s' = alertLog s
            \<and> (enabled s \<longrightarrow>
                  lastBuf s' = (if length (lastBuf s) \<ge> lastBufSize then tl (lastBuf s)
                                else lastBuf s) @ [line])
            \<and> (enabled s \<and> consoleWriter s \<longrightarrow> last (consoleOut s') = line)"
proof -
  let ?c = "funcNameMode_code funcNameMode"
  let ?msg = "invalid_level_msg levelName (logLevelDef.name (levels ! nat (level f)))"
  let ?t = "s\<lparr>mutex := True, logFuncName := ?c\<rparr>"
  let ?s2 = "projr (logger False 0 (name f) WARNING None ?msg [] x ?t)"
  let ?line = "logger_text 0 (name f) WARNING None ?msg [] x (s\<lparr>logFuncName := ?c\<rparr>)"
  have fm: "facilities (s\<lparr>mutex := True\<rparr>) fp = Some f" using assms(1) by simp
  have r: "SetLogLevel fp levelName funcNameMode x s = Inr (level f, Some ?msg, unlock ?s2)"
    using setLogLevel_invalid[OF fm assms(2,3,4), of funcNameMode x]
    by (simp add: SetLogLevel_unlocked[OF assms(5)])
  have line: "logger_text 0 (name f) WARNING None ?msg [] x ?t = ?line"
    by (rule logger_text_cong) simp_all
  have fa: "facilities (unlock ?s2) = facilities s" "alertLog (unlock ?s2) = alertLog s"
    by (simp_all add: unlock_def logger_unlocked_keeps)
  have lb: "enabled s \<Longrightarrow> lastBuf (unlock ?s2) = ring_push (lastBuf s) ?line"
    using logger_unlocked_lastBuf[of ?t 0 "name f" WARNING None ?msg "[]" x]
    by (simp add: unlock_def line)
  have co: "enabled s \<and> consoleWriter s \<Longrightarrow> last (consoleOut (unlock ?s2)) = ?line"
    using logger_body_consoleOut[of ?t 0 "name f" WARNING None ?msg "[]" x]
    by (auto simp: unlock_def logger_unlocked line)
  show ?thesis
    unfolding Let_def r using fa lb co by (simp add: ring_push_def)
qed

lemma logger_text_WA:
  "pid s = 7 \<Longrightarrow> maxLen s = 0 \<Longrightarrow> logFuncName s = logFuncNameNone \<Longrightarrow>
     logger_text 0 [] WARNING None m [] x0 s = ''[7] WA 2024-05-01 10:00:00.000 '' @ m @ [CHR 0x0A]"
  by (simp add: logger_text_def x0_def show_int_7 truncate_to_def
      levels_def Level_defs logFuncNameNone_def logFuncNameFull_def logFuncNameShort_def)

lemma logger_text_WA_full:
  "pid s = 7 \<Longrightarrow> maxLen s = 0 \<Longrightarrow> logFuncName s = logFuncNameFull \<Longrightarrow>
     logger_text 0 [] WARNING None m [] x0 s
       = ''[7] WA 2024-05-01 10:00:00.000 main.main: '' @ m @ [CHR 0x0A]"
  by (simp add: logger_text_def x0_def show_int_7 truncate_to_def
      levels_def Level_defs logFuncNameNone_def logFuncNameFull_def logFuncNameShort_def)

lemma levels_DEBUG: "logLevelDef.name (levels ! nat DEBUG) = ''DEBUG''"
  by (simp add: levels_def Level_defs)

lemma DEBUG_range: "0 \<le> DEBUG" "DEBUG < 14"
  by (simp_all add: DEBUG_def)

theorem SetLogLevel_invalid_name_witness:
  "facilities s0 [] = Some \<lparr>name = [], level = DEBUG\<rparr> \<and> \<not> snd (Str2Level ''bogus'')
   \<and> 0 \<le> DEBUG \<and> DEBUG < 14 \<and> \<not> mutex s0 \<and> enabled s0 \<and> consoleWriter s0
   \<and> \<not> isl (SetLogLevel [] ''bogus'' ''none'' x0 s0)
   \<and> fst (projr (SetLogLevel [] ''bogus'' ''none'' x0 s0)) = DEBUG
   \<and> fst (snd (projr (SetLogLevel [] ''bogus'' ''none'' x0 s0)))
       = Some (invalid_level_msg ''bogus'' ''DEBUG'')
   \<and> facilities (snd (snd (projr (SetLogLevel [] ''bogus'' ''none'' x0 s0)))) = facilities s0
   \<and> lastBuf (snd (snd (projr (SetLogLevel [] ''bogus'' ''none'' x0 s0))))
       = [''[7] WA 2024-05-01 10:00:00.000 '' @ invalid_level_msg ''bogus'' ''DEBUG''
            @ [CHR 0x0A]]
   \<and> last (consoleOut (snd (snd (projr (SetLogLevel [] ''bogus'' ''none'' x0 s0)))))
       = ''[7] WA 2024-05-01 10:00:00.000 '' @ invalid_level_msg ''bogus'' ''DEBUG''
           @ [CHR 0x0A]"
  using SetLogLevel_invalid_name
          [of s0 "[]" "\<lparr>name = [], level = DEBUG\<rparr>" "''bogus''" "''none''" x0]
  by (simp add: Let_def s0_fields Str2Level_samples levels_DEBUG funcNameMode_code_def
      logger_text_WA lastBufSize_def DEBUG_range)

text \<open>
  C10. Every call of \<open>setLogLevel\<close> on a registered facility whose level is in the table
  returns with the caller-tag mode \<open>logFuncName\<close> set from the \<open>funcNameMode\<close> argument,
  whether the level name is invalid, names the present level or names a new one; with an
  invalid name the warning line is already formatted under the new mode.
\<close>

theorem setLogLevel_overwrites_logFuncName:
  assumes "facilities s fp = Some f" and "0 \<le> level f" and "level f < 14"
  shows "let r = setLogLevel fp levelName funcNameMode x s;
             s' = snd (snd (projr r));
             msg = invalid_level_msg levelName (logLevelDef.name (levels ! nat (level f)))
         in \<not> isl r \<and> logFuncName s' = funcNameMode_code funcNameMode
            \<and> (\<not> snd (Str2Level levelName) \<and> enabled s \<longrightarrow>
                  last (lastBuf s')
                    = logger_text 0 (name f) WARNING None msg [] x
                        (s\<lparr>logFuncName := funcNameMode_code funcNameMode\<rparr>))"
proof -
  obtain new ok where p: "Str2Level levelName = (new, ok)"
    by (cases "Str2Level levelName") auto
  show ?thesis
  proof (cases ok)
    case False
    with p have inv: "\<not> snd (Str2Level levelName)" by simp
    show ?thesis
      unfolding Let_def setLogLevel_invalid[OF assms(1) inv assms(2,3)]
      by (simp add: logger_unlocked_keeps logger_unlocked_lastBuf ring_push_def)
  next
    case True
    show ?thesis
    proof (cases "new = level f")
      case True
      with p \<open>ok\<close> have "Str2Level levelName = (level f, True)" by simp
      from setLogLevel_same[OF assms(1) this] show ?thesis
        by (simp add: Let_def p \<open>ok\<close>)
    next
      case False
      from p \<open>ok\<close> have "Str2Level levelName = (new, True)" by simp
      from setLogLevel_new[OF assms(1) this False] show ?thesis
        by (simp add: Let_def p \<open>ok\<close> logger_unlocked_keeps)
    qed
  qed
qed

theorem setLogLevel_overwrites_logFuncName_witness:
  "facilities s0 [] = Some \<lparr>name = [], level = DEBUG\<rparr> \<and> 0 \<le> DEBUG \<and> DEBUG < 14
   \<and> logFuncName s0 = logFuncNameNone \<and> \<not> snd (Str2Level ''bogus'') \<and> enabled s0
   \<and> \<not> isl (setLogLevel [] ''bogus'' ''full'' x0 s0)
   \<and> logFuncName (snd (snd (projr (setLogLevel [] ''bogus'' ''full'' x0 s0)))) = logFuncNameFull
   \<and> last (lastBuf (snd (snd (projr (setLogLevel [] ''bogus'' ''full'' x0 s0)))))
       = ''[7] WA 2024-05-01 10:00:00.000 main.main: '' @ invalid_level_msg ''bogus'' ''DEBUG''
           @ [CHR 0x0A]
   \<and> \<not> isl (setLogLevel [] ''DEBUG'' ''short'' x0 s0)
   \<and> logFuncName (snd (snd (projr (setLogLevel [] ''DEBUG'' ''short'' x0 s0)))) = logFuncNameShort"
  using setLogLevel_overwrites_logFuncName
          [of s0 "[]" "\<lparr>name = [], level = DEBUG\<rparr>" "''bogus''" "''full''" x0]
        setLogLevel_overwrites_logFuncName
          [of s0 "[]" "\<lparr>name = [], level = DEBUG\<rparr>" "''DEBUG''" "''short''" x0]
  by (simp add: Let_def s0_fields Str2Level_samples levels_DEBUG funcNameMode_code_def
      logger_text_WA_full DEBUG_range)

section \<open>The registry\<close>

lemma init_s0: "init 7 = Inr s0"
  by (simp add: init_def NewFacility_def lock_def unlock_def package_vars_def s0_def
      StdFacilityName_def)

lemma unlock_lock: "\<not> mutex s \<Longrightarrow> unlock (s\<lparr>mutex := True\<rparr>) = s"
  by (simp add: unlock_def)

lemma GetFacility_registered:
  "\<not> mutex s \<Longrightarrow> facilities s nm = Some f \<Longrightarrow> GetFacility nm s = Inr (nm, s)"
  by (simp add: GetFacility_def lock_def unlock_lock)

lemma NewFacility_registered:
  "\<not> mutex s \<Longrightarrow> facilities s nm = Some f \<Longrightarrow> NewFacility nm s = Inr (nm, s)"
  by (simp add: NewFacility_def lock_def unlock_lock)

lemma NewFacility_held: "mutex s \<Longrightarrow> NewFacility nm s = Inl Deadlock"
  by (simp add: NewFacility_def lock_def)

lemma GetFacility_unregistered:
  "facilities s nm = None \<Longrightarrow> GetFacility nm s = Inl Deadlock"
  by (simp add: GetFacility_def lock_def NewFacility_held)

lemma NewFacility_unregistered:
  assumes "\<not> mutex s" and "facilities s nm = None"
    and "stdFacility s = Some p" and "facilities s p = Some sf"
  shows "NewFacility nm s
           = Inr (nm, s\<lparr>facilities := (facilities s)
                    (nm \<mapsto> \<lparr>name = nm, level = (if nm \<noteq> StdFacilityName then level sf else DEBUG)\<rparr>)\<rparr>)"
  using assms by (simp add: NewFacility_def lock_def unlock_def)

text \<open>
  C6. In the state \<open>init\<close> leaves, where only the standard facility is registered,
  \<open>GetFacility\<close> on the unregistered name \<open>net\<close> never returns: it holds the mutex when it
  calls \<open>NewFacility\<close>, whose first step is to take the same mutex. \<open>NewFacility\<close> called
  directly returns the new facility, registered at the standard facility's level.
\<close>

theorem GetFacility_blocks_on_unregistered_name:
  "init 7 = Inr s0 \<and> facilities s0 ''net'' = None
   \<and> GetFacility ''net'' s0 = Inl Deadlock
   \<and> NewFacility ''net'' s0
       = Inr (''net'', s0\<lparr>facilities := (facilities s0)(''net'' \<mapsto> \<lparr>name = ''net'', level = DEBUG\<rparr>)\<rparr>)"
proof -
  have n: "facilities s0 ''net'' = None"
    by (simp add: s0_def package_vars_def)
  have "NewFacility ''net'' s0
       = Inr (''net'', s0\<lparr>facilities := (facilities s0)(''net'' \<mapsto> \<lparr>name = ''net'', level = DEBUG\<rparr>)\<rparr>)"
    using NewFacility_unregistered[of s0 "''net''" "[]" "\<lparr>name = [], level = DEBUG\<rparr>"] n
    by (simp add: s0_fields StdFacilityName_def) (simp add: s0_def)
  then show ?thesis using n init_s0 GetFacility_unregistered[OF n] by simp
qed

section \<open>Setting the levels of all facilities\<close>

lemma setLogLevel_valid:
  assumes "facilities s fp = Some f" and "Str2Level levelName = (new, True)"
  shows "\<not> isl (setLogLevel fp levelName funcNameMode x s)"
    and "fst (snd (projr (setLogLevel fp levelName funcNameMode x s))) = None"
    and "facilities (snd (snd (projr (setLogLevel fp levelName funcNameMode x s))))
           = (facilities s)(fp \<mapsto> f\<lparr>level := new\<rparr>)"
proof -
  have same: "new = level f \<Longrightarrow> (facilities s)(fp \<mapsto> f\<lparr>level := new\<rparr>) = facilities s"
    using assms(1) by (auto simp: fun_eq_iff)
  show "\<not> isl (setLogLevel fp levelName funcNameMode x s)"
    using setLogLevel_same[OF assms(1), of levelName funcNameMode x]
      setLogLevel_new[OF assms, of funcNameMode x] assms(2)
    by (cases "new = level f") simp_all
  show "fst (snd (projr (setLogLevel fp levelName funcNameMode x s))) = None"
    using setLogLevel_same[OF assms(1), of levelName funcNameMode x]
      setLogLevel_new[OF assms, of funcNameMode x] assms(2)
    by (cases "new = level f") simp_all
  show "facilities (snd (snd (projr (setLogLevel fp levelName funcNameMode x s))))
           = (facilities s)(fp \<mapsto> f\<lparr>level := new\<rparr>)"
  proof (cases "new = level f")
    case True
    then show ?thesis
      using setLogLevel_same[OF assms(1), of levelName funcNameMode x] assms(2) same by simp
  next
    case False
    then show ?thesis
      using setLogLevel_new[OF assms False, of funcNameMode x]
      by (simp add: logger_unlocked_keeps)
  qed
qed

lemma wf_facilities_update:
  assumes "wf_facilities s" and "facilities s fp = Some f" and "0 \<le> new" and "new < 14"
    and "facilities t = (facilities s)(fp \<mapsto> f\<lparr>level := new\<rparr>)"
  shows "wf_facilities t"
  using assms by (auto simp: wf_facilities_def)

lemma SetLogLevels_loop_run:
  fixes d :: string and ov :: "string \<rightharpoonup> string"
  defines "ok \<equiv> \<lambda>fp. snd (Str2Level (wanted d ov fp))"
  assumes wf: "wf_facilities s" and sub: "set order \<subseteq> dom (facilities s)"
    and dist: "distinct order"
  shows "\<not> isl (SetLogLevels_loop order d ov lf xs s)
         \<and> fst (projr (SetLogLevels_loop order d ov lf xs s))
             = (case dropWhile ok order of
                  [] \<Rightarrow> None
                | bad # rest \<Rightarrow>
                    Some (invalid_level_msg (wanted d ov bad)
                            (logLevelDef.name (levels ! nat (level (the (facilities s bad)))))))
         \<and> (\<forall>q. facilities (snd (projr (SetLogLevels_loop order d ov lf xs s))) q
                  = (if q \<in> set (takeWhile ok order)
                     then map_option (\<lambda>f. f\<lparr>level := fst (Str2Level (wanted d ov q))\<rparr>)
                            (facilities s q)
                     else facilities s q))"
  using wf sub dist
proof (induction order arbitrary: s)
  case Nil
  show ?case by simp
next
  case (Cons fp fps)
  from Cons.prems(2) obtain f where f: "facilities s fp = Some f" by auto
  with Cons.prems(1) have nf: "name f = fp" and rg: "0 \<le> level f" "level f < 14"
    by (auto simp: wf_facilities_def)
  let ?w = "wanted d ov fp"
  have lv: "(case ov (name f) of Some l \<Rightarrow> l | None \<Rightarrow> d) = ?w"
    by (simp add: wanted_def nf)
  let ?sl = "setLogLevel fp ?w lf (xs fp) s"
  have unfold: "SetLogLevels_loop (fp # fps) d ov lf xs s
                  = (case ?sl of
                       Inl e \<Rightarrow> Inl e
                     | Inr (old, err, s1) \<Rightarrow>
                         (if err \<noteq> None then Inr (err, s1)
                          else SetLogLevels_loop fps d ov lf xs s1))"
    using f by (simp add: lv Let_def)
  show ?case
  proof (cases "ok fp")
    case False
    then have inv: "\<not> snd (Str2Level ?w)" by (simp add: ok_def)
    note r = setLogLevel_invalid[OF f inv rg, of lf "xs fp"]
    have dw: "dropWhile ok (fp # fps) = fp # fps" "takeWhile ok (fp # fps) = []"
      using False by simp_all
    show ?thesis
      unfolding unfold r dw using f
      by (simp add: logger_unlocked_keeps)
  next
    case True
    then obtain new where p: "Str2Level ?w = (new, True)"
      by (cases "Str2Level ?w") (auto simp: ok_def)
    have nr: "0 \<le> new" "new < 14" using Str2Level_range[of ?w] p by simp_all
    note v = setLogLevel_valid[OF f p, of lf "xs fp"]
    obtain old err s1 where sl: "?sl = Inr (old, err, s1)"
      using v(1) by (cases ?sl) auto
    have err: "err = None" using v(2) sl by simp
    have fs1: "facilities s1 = (facilities s)(fp \<mapsto> f\<lparr>level := new\<rparr>)"
      using v(3) sl by simp
    have wf1: "wf_facilities s1"
      using wf_facilities_update[OF Cons.prems(1) f nr fs1] .
    have sub1: "set fps \<subseteq> dom (facilities s1)"
      using Cons.prems(2) by (auto simp: fs1)
    have d1: "distinct fps" and nin: "fp \<notin> set fps" using Cons.prems(3) by simp_all
    note IH = Cons.IH[OF wf1 sub1 d1]
    have step: "SetLogLevels_loop (fp # fps) d ov lf xs s = SetLogLevels_loop fps d ov lf xs s1"
      unfolding unfold sl by (simp add: err)
    have dw: "dropWhile ok (fp # fps) = dropWhile ok fps"
             "takeWhile ok (fp # fps) = fp # takeWhile ok fps"
      using True by simp_all
    have bad: "\<And>bad rest. dropWhile ok fps = bad # rest \<Longrightarrow> facilities s1 bad = facilities s bad"
    proof -
      fix bad rest assume "dropWhile ok fps = bad # rest"
      then have "bad \<in> set (dropWhile ok fps)" by simp
      then have "bad \<in> set fps" by (rule set_dropWhileD)
      with nin have "bad \<noteq> fp" by auto
      then show "facilities s1 bad = facilities s bad" by (simp add: fs1)
    qed
    have e: "fst (projr (SetLogLevels_loop fps d ov lf xs s1))
               = (case dropWhile ok fps of
                    [] \<Rightarrow> None
                  | bad # rest \<Rightarrow>
                      Some (invalid_level_msg (wanted d ov bad)
                              (logLevelDef.name (levels ! nat (level (the (facilities s bad)))))))"
    proof -
      have e0: "fst (projr (SetLogLevels_loop fps d ov lf xs s1))
                  = (case dropWhile ok fps of
                       [] \<Rightarrow> None
                     | bad # rest \<Rightarrow>
                         Some (invalid_level_msg (wanted d ov bad)
                                 (logLevelDef.name (levels ! nat (level (the (facilities s1 bad)))))))"
        using IH by blast
      show ?thesis
      proof (cases "dropWhile ok fps")
        case Nil
        show ?thesis unfolding e0 Nil by simp
      next
        case (Cons b rest)
        show ?thesis unfolding e0 Cons using bad[OF Cons] by simp
      qed
    qed
    have ntw: "fp \<notin> set (takeWhile ok fps)"
      using nin set_takeWhileD[of fp ok fps] by auto
    have fa: "\<forall>q. facilities (snd (projr (SetLogLevels_loop fps d ov lf xs s1))) q
                  = (if q \<in> set (fp # takeWhile ok fps)
                     then map_option (\<lambda>f. f\<lparr>level := fst (Str2Level (wanted d ov q))\<rparr>)
                            (facilities s q)
                     else facilities s q)"
    proof
      fix q
      show "facilities (snd (projr (SetLogLevels_loop fps d ov lf xs s1))) q
                  = (if q \<in> set (fp # takeWhile ok fps)
                     then map_option (\<lambda>f. f\<lparr>level := fst (Str2Level (wanted d ov q))\<rparr>)
                            (facilities s q)
                     else facilities s q)"
      proof (cases "q = fp")
        case True
        then show ?thesis using IH ntw f p by (simp add: fs1)
      next
        case False
        then show ?thesis using IH by (simp add: fs1)
      qed
    qed
    show ?thesis
      unfolding step dw using IH e fa by blast
  qed
qed

text \<open>
  C7. With the mutex free, the registry invariant, and \<open>order\<close> an enumeration without
  repetition of the registered facilities, \<open>SetLogLevels\<close> returns. Each facility is given
  its override when it has one and the default otherwise. The facilities enumerated
  before the first whose level name does not parse get the parsed level; that facility
  and all after it keep theirs; the error returned is that of the first failure, and
  there is none when every name parses.
\<close>

theorem SetLogLevels_fail_fast:
  assumes "\<not> mutex s" and "wf_facilities s" and "distinct order"
    and "set order = dom (facilities s)"
  shows "let r = SetLogLevels d ov lf order xs s;
             s' = snd (projr r);
             ok = (\<lambda>fp. snd (Str2Level (wanted d ov fp)))
         in \<not> isl r
            \<and> (\<forall>fp \<in> set (takeWhile ok order).
                  map_option level (facilities s' fp) = Some (fst (Str2Level (wanted d ov fp))))
            \<and> (\<forall>fp \<in> set (dropWhile ok order). facilities s' fp = facilities s fp)
            \<and> fst (projr r)
                = (case dropWhile ok order of
                     [] \<Rightarrow> None
                   | bad # rest \<Rightarrow>
                       Some (invalid_level_msg (wanted d ov bad)
                               (logLevelDef.name (levels ! nat (level (the (facilities s bad)))))))"
proof -
  let ?t = "s\<lparr>mutex := True\<rparr>"
  let ?ok = "\<lambda>fp. snd (Str2Level (wanted d ov fp))"
  let ?l = "SetLogLevels_loop order d ov lf xs ?t"
  have wft: "wf_facilities ?t" using assms(2) by (simp add: wf_facilities_def)
  have subt: "set order \<subseteq> dom (facilities ?t)" using assms(4) by simp
  have ft: "facilities ?t = facilities s" by simp
  note L = SetLogLevels_loop_run[OF wft subt assms(3), of d ov lf xs, unfolded ft]
  obtain err s2 where l: "?l = Inr (err, s2)"
    using L by (cases ?l) auto
  have r: "SetLogLevels d ov lf order xs s = Inr (err, unlock s2)"
    using assms(1) by (simp add: SetLogLevels_def lock_def l)
  have fa: "\<And>q. facilities (unlock s2) q
                  = (if q \<in> set (takeWhile ?ok order)
                     then map_option (\<lambda>f. f\<lparr>level := fst (Str2Level (wanted d ov q))\<rparr>)
                            (facilities s q)
                     else facilities s q)"
    using L by (simp add: l unlock_def)
  have disj: "\<And>q. q \<in> set (dropWhile ?ok order) \<Longrightarrow> q \<notin> set (takeWhile ?ok order)"
  proof -
    fix q assume q: "q \<in> set (dropWhile ?ok order)"
    have "distinct (takeWhile ?ok order @ dropWhile ?ok order)"
      using assms(3) by (simp only: takeWhile_dropWhile_id)
    then have "set (takeWhile ?ok order) \<inter> set (dropWhile ?ok order) = {}"
      unfolding distinct_append by blast
    then show "q \<notin> set (takeWhile ?ok order)" using q by blast
  qed
  have 1: "\<forall>fp \<in> set (takeWhile ?ok order).
             map_option level (facilities (unlock s2) fp) = Some (fst (Str2Level (wanted d ov fp)))"
  proof
    fix fp assume a: "fp \<in> set (takeWhile ?ok order)"
    then have "fp \<in> set order" by (rule set_takeWhileD[THEN conjunct1])
    then obtain f where "facilities s fp = Some f" using assms(4) by auto
    then show "map_option level (facilities (unlock s2) fp)
                 = Some (fst (Str2Level (wanted d ov fp)))"
      using a by (simp add: fa)
  qed
  have 2: "\<forall>fp \<in> set (dropWhile ?ok order). facilities (unlock s2) fp = facilities s fp"
    using disj by (simp add: fa)
  have 3: "err = (case dropWhile ?ok order of
                     [] \<Rightarrow> None
                   | bad # rest \<Rightarrow>
                       Some (invalid_level_msg (wanted d ov bad)
                               (logLevelDef.name (levels ! nat (level (the (facilities s bad)))))))"
    using L by (simp add: l)
  show ?thesis
    unfolding Let_def r using 1 2 3 by simp
qed

lemma s3_fields:
  "\<not> mutex s3" "facilities s3 [] = Some \<lparr>name = [], level = DEBUG\<rparr>"
  "facilities s3 ''db'' = Some \<lparr>name = ''db'', level = DEBUG\<rparr>"
  "facilities s3 ''net'' = Some \<lparr>name = ''net'', level = DEBUG\<rparr>"
  "dom (facilities s3) = {[], ''db'', ''net''}"
  by (auto simp: s3_def s0_def package_vars_def split: if_splits)

lemma wf_s3: "wf_facilities s3"
  by (auto simp: wf_facilities_def s3_def DEBUG_def split: if_splits)

theorem SetLogLevels_fail_fast_witness:
  "\<not> mutex s3 \<and> wf_facilities s3 \<and> distinct [''db'', [], ''net'']
   \<and> set [''db'', [], ''net''] = dom (facilities s3)
   \<and> \<not> isl (SetLogLevels ''IN'' [[] \<mapsto> ''bogus''] ''none'' [''db'', [], ''net''] (\<lambda>fp. x0) s3)
   \<and> fst (projr (SetLogLevels ''IN'' [[] \<mapsto> ''bogus''] ''none'' [''db'', [], ''net'']
                   (\<lambda>fp. x0) s3))
       = Some (invalid_level_msg ''bogus'' ''DEBUG'')
   \<and> map_option level
         (facilities (snd (projr (SetLogLevels ''IN'' [[] \<mapsto> ''bogus''] ''none''
                                    [''db'', [], ''net''] (\<lambda>fp. x0) s3))) ''db'')
       = Some INFO
   \<and> facilities (snd (projr (SetLogLevels ''IN'' [[] \<mapsto> ''bogus''] ''none''
                                [''db'', [], ''net''] (\<lambda>fp. x0) s3))) []
       = Some \<lparr>name = [], level = DEBUG\<rparr>
   \<and> facilities (snd (projr (SetLogLevels ''IN'' [[] \<mapsto> ''bogus''] ''none''
                                [''db'', [], ''net''] (\<lambda>fp. x0) s3))) ''net''
       = Some \<lparr>name = ''net'', level = DEBUG\<rparr>"
  using SetLogLevels_fail_fast
          [of s3 "[''db'', [], ''net'']" "''IN''" "[[] \<mapsto> ''bogus'']" "''none''" "\<lambda>fp. x0"]
  by (simp add: Let_def s3_fields wf_s3 wanted_def Str2Level_samples levels_DEBUG insert_commute)

lemma s3_reachable:
  "NewFacility ''db'' s0
     = Inr (''db'', s0\<lparr>facilities := (facilities s0)(''db'' \<mapsto> \<lparr>name = ''db'', level = DEBUG\<rparr>)\<rparr>)"
  "NewFacility ''net''
     (s0\<lparr>facilities := (facilities s0)(''db'' \<mapsto> \<lparr>name = ''db'', level = DEBUG\<rparr>)\<rparr>)
     = Inr (''net'', s3)"
  by (simp_all add: NewFacility_def lock_def unlock_def s0_def s3_def package_vars_def
      StdFacilityName_def)

end
